theory Spec2Isabelle
  imports Main "HOL-Library.Sublist"
begin

section \<open>JavaScript strings\<close>

text \<open>
  A JavaScript string is a sequence of UTF-16 code units, and \<open>length\<close>, indexing,
  \<open>substring\<close>, \<open>startsWith\<close>, \<open>split\<close>, \<open>replace\<close> and \<open>trim\<close> all work on code
  units. A code unit is modelled by its number, so a string is a list of naturals; the
  literals of the source are written \<open>str ''...''\<close>.
\<close>

type_synonym jstring = "nat list"

definition str :: "string \<Rightarrow> jstring" where
  "str s = map of_char s"

text \<open>
  \<open>String.prototype.trim\<close> removes the ECMAScript white space and line terminator code
  units from both ends: TAB, LF, VT, FF, CR, SP, NBSP, U+1680, U+2000..U+200A, U+2028,
  U+2029, U+202F, U+205F, U+3000 and U+FEFF.
\<close>

definition is_js_space :: "nat \<Rightarrow> bool" where
  "is_js_space c =
     ((9 \<le> c \<and> c \<le> 13) \<or> c = 32 \<or> c = 160 \<or> c = 5760 \<or> (8192 \<le> c \<and> c \<le> 8202)
      \<or> c = 8232 \<or> c = 8233 \<or> c = 8239 \<or> c = 8287 \<or> c = 12288 \<or> c = 65279)"

definition trim :: "jstring \<Rightarrow> jstring" where
  "trim s = rev (dropWhile is_js_space (rev (dropWhile is_js_space s)))"

definition startsWith :: "jstring \<Rightarrow> jstring \<Rightarrow> bool" where
  "startsWith s p = prefix p s"

section \<open>The group streaming store\<close>

text \<open>
  Modelled from the spec: the type \<open>LogisticsStreamStep\<close> of \<open>types/streaming\<close> is
  imported by the store but its declaration is not available. Following the
  specification's domain event (order identifier, sender, receiver, message, timestamp
  and lifecycle state, all strings), it is the record of these six fields, under the
  names the validator of the store checks.
\<close>

record LogisticsStreamStep =
  order_id :: jstring
  sender :: jstring
  receiver :: jstring
  message :: jstring
  timestamp :: jstring
  state :: jstring

text \<open>
  The state of the store. Every action is \<open>set\<close> with a partial state, or with a
  function of the current state, merged into it.
\<close>

record LogisticsStreamingState =
  events :: "LogisticsStreamStep list"
  finalResponse :: "jstring option"
  isStreaming :: bool
  isComplete :: bool
  error :: "jstring option"
  currentOrderId :: "jstring option"
  executionKey :: "jstring option"

definition initialState :: LogisticsStreamingState where
  "initialState =
     \<lparr>events = [], finalResponse = None, isStreaming = False, isComplete = False,
      error = None, currentOrderId = None, executionKey = None\<rparr>"

definition DELIVERED :: jstring where
  "DELIVERED = str ''DELIVERED''"

definition addEvent :: "LogisticsStreamStep \<Rightarrow> LogisticsStreamingState \<Rightarrow> LogisticsStreamingState" where
  "addEvent event st =
     st\<lparr>events := events st @ [event],
        currentOrderId := Some (order_id event),
        isComplete := (if state event = DELIVERED then True else isComplete st),
        isStreaming := (if state event = DELIVERED then False else isStreaming st)\<rparr>"

definition setFinalResponse :: "jstring \<Rightarrow> LogisticsStreamingState \<Rightarrow> LogisticsStreamingState" where
  "setFinalResponse response st =
     st\<lparr>finalResponse := Some response, isComplete := True, isStreaming := False\<rparr>"

definition setError :: "jstring \<Rightarrow> LogisticsStreamingState \<Rightarrow> LogisticsStreamingState" where
  "setError err st = st\<lparr>error := Some err, isComplete := True, isStreaming := False\<rparr>"

definition setStreaming :: "bool \<Rightarrow> LogisticsStreamingState \<Rightarrow> LogisticsStreamingState" where
  "setStreaming streaming st = st\<lparr>isStreaming := streaming\<rparr>"

definition setComplete :: "bool \<Rightarrow> LogisticsStreamingState \<Rightarrow> LogisticsStreamingState" where
  "setComplete complete st = st\<lparr>isComplete := complete, isStreaming := False\<rparr>"

definition setCurrentOrderId :: "jstring \<Rightarrow> LogisticsStreamingState \<Rightarrow> LogisticsStreamingState" where
  "setCurrentOrderId orderId st = st\<lparr>currentOrderId := Some orderId\<rparr>"

definition setExecutionKey :: "jstring \<Rightarrow> LogisticsStreamingState \<Rightarrow> LogisticsStreamingState" where
  "setExecutionKey k st = st\<lparr>executionKey := Some k\<rparr>"

definition reset :: "LogisticsStreamingState \<Rightarrow> LogisticsStreamingState" where
  "reset st = initialState"

section \<open>JSON values and \<open>JSON.parse\<close>\<close>

text \<open>
  \<open>JSON.parse\<close> is the ECMAScript built-in; it is modelled by a lexer and a pushdown
  parser for the JSON grammar (ECMA-404). \<open>None\<close> stands for the \<open>SyntaxError\<close> it
  throws. A number keeps its literal text. An object keeps its members in source order;
  reading a property takes the last member of that name, as the built-in does for
  duplicate names.
\<close>

datatype json =
    JNull
  | JBool bool
  | JNumber jstring
  | JString jstring
  | JArray "json list"
  | JObject "(jstring \<times> json) list"

datatype token =
    TLBrace | TRBrace | TLBracket | TRBracket | TColon | TComma
  | TString jstring | TNumber jstring | TTrue | TFalse | TNull

definition is_digit :: "nat \<Rightarrow> bool" where
  "is_digit c = (48 \<le> c \<and> c \<le> 57)"

definition is_hex_digit :: "nat \<Rightarrow> bool" where
  "is_hex_digit c = (is_digit c \<or> (65 \<le> c \<and> c \<le> 70) \<or> (97 \<le> c \<and> c \<le> 102))"

definition hex_value :: "nat \<Rightarrow> nat" where
  "hex_value c = (if is_digit c then c - 48 else if 97 \<le> c then c - 87 else c - 55)"

definition unicode_escape :: "jstring \<Rightarrow> nat" where
  "unicode_escape ds = foldl (\<lambda>n d. 16 * n + hex_value d) 0 ds"

definition simple_escape :: "nat \<Rightarrow> nat option" where
  "simple_escape e =
     (if e = 34 then Some 34
      else if e = 92 then Some 92
      else if e = 47 then Some 47
      else if e = 98 then Some 8
      else if e = 102 then Some 12
      else if e = 110 then Some 10
      else if e = 114 then Some 13
      else if e = 116 then Some 9
      else None)"

definition cons_char :: "nat \<Rightarrow> (jstring \<times> jstring) option \<Rightarrow> (jstring \<times> jstring) option" where
  "cons_char c r = map_option (\<lambda>(s, rest). (c # s, rest)) r"

text \<open>
  The body of a string literal, after its opening quote: the decoded code units and the
  text after the closing quote. Code units below U+0020 must be escaped.
\<close>

fun lex_string :: "jstring \<Rightarrow> (jstring \<times> jstring) option" where
  "lex_string [] = None"
| "lex_string (c # cs) =
     (if c = 34 then Some ([], cs)
      else if c = 92 then
        (case cs of
           [] \<Rightarrow> None
         | e # es \<Rightarrow>
             if e = 117 then
               (if 4 \<le> length es \<and> list_all is_hex_digit (take 4 es)
                then cons_char (unicode_escape (take 4 es)) (lex_string (drop 4 es))
                else None)
             else (case simple_escape e of
                     None \<Rightarrow> None
                   | Some d \<Rightarrow> cons_char d (lex_string es)))
      else if c < 32 then None
      else cons_char c (lex_string cs))"

definition is_number_char :: "nat \<Rightarrow> bool" where
  "is_number_char c = (is_digit c \<or> c = 45 \<or> c = 43 \<or> c = 46 \<or> c = 101 \<or> c = 69)"

definition valid_exponent :: "jstring \<Rightarrow> bool" where
  "valid_exponent r =
     (r = [] \<or>
      ((hd r = 101 \<or> hd r = 69) \<and>
       (let ds = (if tl r \<noteq> [] \<and> (hd (tl r) = 43 \<or> hd (tl r) = 45) then tl (tl r) else tl r)
        in ds \<noteq> [] \<and> list_all is_digit ds)))"

definition valid_fraction :: "jstring \<Rightarrow> bool" where
  "valid_fraction r =
     (if r \<noteq> [] \<and> hd r = 46
      then takeWhile is_digit (tl r) \<noteq> [] \<and> valid_exponent (dropWhile is_digit (tl r))
      else valid_exponent r)"

text \<open>The JSON number grammar: \<open>-? (0 | [1-9][0-9]*) (. [0-9]+)? ([eE] [+-]? [0-9]+)?\<close>.\<close>

definition valid_number :: "jstring \<Rightarrow> bool" where
  "valid_number s =
     (let u = (if s \<noteq> [] \<and> hd s = 45 then tl s else s);
          ip = takeWhile is_digit u
      in ip \<noteq> [] \<and> (if hd ip = 48 then length ip = 1 else True)
         \<and> valid_fraction (dropWhile is_digit u))"

definition is_json_space :: "nat \<Rightarrow> bool" where
  "is_json_space c = (c = 32 \<or> c = 9 \<or> c = 10 \<or> c = 13)"

definition cons_token :: "token \<Rightarrow> token list option \<Rightarrow> token list option" where
  "cons_token t r = map_option (Cons t) r"

lemma lex_string_shorter:
  "lex_string cs = Some (s, rest) \<Longrightarrow> length rest < length cs"
proof (induction cs arbitrary: s rest rule: lex_string.induct)
  case 1
  then show ?case by simp
next
  case (2 c cs)
  then show ?case
    by (auto simp: cons_char_def split: if_splits list.splits option.splits) fastforce+
qed

text \<open>
  The lexer. A number token is the longest run of number characters, which must be a
  number of the grammar: in a JSON text a number is always followed by white space, a
  comma or a closing bracket, so the longest run is the number.
\<close>

function tokenize :: "jstring \<Rightarrow> token list option" where
  "tokenize [] = Some []"
| "tokenize (c # cs) =
     (if is_json_space c then tokenize cs
      else if c = 123 then cons_token TLBrace (tokenize cs)
      else if c = 125 then cons_token TRBrace (tokenize cs)
      else if c = 91 then cons_token TLBracket (tokenize cs)
      else if c = 93 then cons_token TRBracket (tokenize cs)
      else if c = 58 then cons_token TColon (tokenize cs)
      else if c = 44 then cons_token TComma (tokenize cs)
      else if c = 34 then
        (case lex_string cs of
           None \<Rightarrow> None
         | Some (s, rest) \<Rightarrow> cons_token (TString s) (tokenize rest))
      else if is_number_char c then
        (if valid_number (takeWhile is_number_char (c # cs))
         then cons_token (TNumber (takeWhile is_number_char (c # cs)))
                (tokenize (dropWhile is_number_char cs))
         else None)
      else if prefix (str ''true'') (c # cs) then cons_token TTrue (tokenize (drop 3 cs))
      else if prefix (str ''false'') (c # cs) then cons_token TFalse (tokenize (drop 4 cs))
      else if prefix (str ''null'') (c # cs) then cons_token TNull (tokenize (drop 3 cs))
      else None)"
  by pat_completeness auto
termination
  by (relation "measure length")
     (auto dest: lex_string_shorter simp: less_Suc_eq_le length_dropWhile_le)

text \<open>
  The parser is a pushdown automaton over the tokens. A frame is an array or an object
  under construction (an object with the member name that awaits its value); the mode
  says what may come next.
\<close>

datatype frame =
    FArray "json list"
  | FObject "(jstring \<times> json) list" "jstring option"

datatype mode = MValue | MFirst | MKeyFirst | MKey | MColon | MAfter | MDone json

type_synonym pstate = "mode \<times> frame list"

fun deliver :: "json \<Rightarrow> frame list \<Rightarrow> pstate option" where
  "deliver v [] = Some (MDone v, [])"
| "deliver v (FArray es # st) = Some (MAfter, FArray (es @ [v]) # st)"
| "deliver v (FObject ms (Some k) # st) = Some (MAfter, FObject (ms @ [(k, v)]) None # st)"
| "deliver v (FObject ms None # st) = None"

fun begin_value :: "token \<Rightarrow> frame list \<Rightarrow> pstate option" where
  "begin_value (TString s) st = deliver (JString s) st"
| "begin_value (TNumber n) st = deliver (JNumber n) st"
| "begin_value TTrue st = deliver (JBool True) st"
| "begin_value TFalse st = deliver (JBool False) st"
| "begin_value TNull st = deliver JNull st"
| "begin_value TLBrace st = Some (MKeyFirst, FObject [] None # st)"
| "begin_value TLBracket st = Some (MFirst, FArray [] # st)"
| "begin_value _ st = None"

fun close_array :: "frame list \<Rightarrow> pstate option" where
  "close_array (FArray es # st) = deliver (JArray es) st"
| "close_array _ = None"

fun close_object :: "frame list \<Rightarrow> pstate option" where
  "close_object (FObject ms None # st) = deliver (JObject ms) st"
| "close_object _ = None"

fun begin_key :: "token \<Rightarrow> frame list \<Rightarrow> pstate option" where
  "begin_key (TString k) (FObject ms None # st) = Some (MColon, FObject ms (Some k) # st)"
| "begin_key _ _ = None"

fun after_comma :: "frame list \<Rightarrow> pstate option" where
  "after_comma (FArray es # st) = Some (MValue, FArray es # st)"
| "after_comma (FObject ms None # st) = Some (MKey, FObject ms None # st)"
| "after_comma _ = None"

fun parse_step :: "pstate \<Rightarrow> token \<Rightarrow> pstate option" where
  "parse_step (MValue, st) t = begin_value t st"
| "parse_step (MFirst, st) t = (if t = TRBracket then close_array st else begin_value t st)"
| "parse_step (MKeyFirst, st) t = (if t = TRBrace then close_object st else begin_key t st)"
| "parse_step (MKey, st) t = begin_key t st"
| "parse_step (MColon, st) t = (if t = TColon then Some (MValue, st) else None)"
| "parse_step (MAfter, st) t =
     (if t = TComma then after_comma st
      else if t = TRBracket then close_array st
      else if t = TRBrace then close_object st
      else None)"
| "parse_step (MDone v, st) t = None"

fun parse_tokens :: "pstate \<Rightarrow> token list \<Rightarrow> pstate option" where
  "parse_tokens ps [] = Some ps"
| "parse_tokens ps (t # ts) =
     (case parse_step ps t of None \<Rightarrow> None | Some ps' \<Rightarrow> parse_tokens ps' ts)"

definition JSON_parse :: "jstring \<Rightarrow> json option" where
  "JSON_parse text =
     (case tokenize text of
        None \<Rightarrow> None
      | Some ts \<Rightarrow>
          (case parse_tokens (MValue, []) ts of
             Some (MDone v, []) \<Rightarrow> Some v
           | _ \<Rightarrow> None))"

subsection \<open>Reading a parsed value\<close>

datatype thrown = ErrorInstance jstring | OtherValue

text \<open>
  \<open>data.name\<close>, for the property names the source reads (\<open>response\<close>, \<open>node\<close>,
  \<open>status\<close> and the six event fields; none of them is a property of a prototype):
  a \<open>TypeError\<close> on \<open>null\<close>, the last member of that name on an object, \<open>undefined\<close>
  (\<open>None\<close>) on every other value.
\<close>

fun get_prop :: "json \<Rightarrow> jstring \<Rightarrow> thrown + json option" where
  "get_prop JNull k = Inl (ErrorInstance (str ''Cannot read properties of null''))"
| "get_prop (JObject ms) k = Inr (map_of (rev ms) k)"
| "get_prop _ k = Inr None"

definition digits_value :: "jstring \<Rightarrow> nat" where
  "digits_value ds = foldl (\<lambda>n d. 10 * n + (d - 48)) 0 ds"

text \<open>
  A number literal denotes the double nearest to its decimal value, which is zero when
  the mantissa is zero or the value is at most \<open>2 ^ -1075\<close> (half the least subnormal,
  a tie that rounds to even).
\<close>

definition number_is_zero :: "jstring \<Rightarrow> bool" where
  "number_is_zero lit =
     (let u = (if lit \<noteq> [] \<and> hd lit = 45 then tl lit else lit);
          ip = takeWhile is_digit u;
          r1 = dropWhile is_digit u;
          fp = (if r1 \<noteq> [] \<and> hd r1 = 46 then takeWhile is_digit (tl r1) else []);
          r2 = (if r1 \<noteq> [] \<and> hd r1 = 46 then dropWhile is_digit (tl r1) else r1);
          neg = (r2 \<noteq> [] \<and> tl r2 \<noteq> [] \<and> hd (tl r2) = 45);
          ed = (if r2 = [] then []
                else if tl r2 \<noteq> [] \<and> (hd (tl r2) = 43 \<or> hd (tl r2) = 45) then tl (tl r2)
                else tl r2);
          m = digits_value (ip @ fp);
          e = (if neg then - int (digits_value ed) else int (digits_value ed)) - int (length fp)
      in m = 0 \<or> (e < 0 \<and> m * 2 ^ 1075 \<le> 10 ^ nat (- e)))"

text \<open>\<open>ToBoolean\<close> of a value read from parsed JSON (\<open>None\<close> is \<open>undefined\<close>).\<close>

fun truthy :: "json option \<Rightarrow> bool" where
  "truthy None = False"
| "truthy (Some JNull) = False"
| "truthy (Some (JBool b)) = b"
| "truthy (Some (JNumber n)) = (\<not> number_is_zero n)"
| "truthy (Some (JString s)) = (s \<noteq> [])"
| "truthy (Some (JArray es)) = True"
| "truthy (Some (JObject ms)) = True"

text \<open>\<open>typeof v === "object"\<close>: objects, arrays and \<open>null\<close>.\<close>

fun typeof_object :: "json \<Rightarrow> bool" where
  "typeof_object JNull = True"
| "typeof_object (JArray es) = True"
| "typeof_object (JObject ms) = True"
| "typeof_object _ = False"

subsection \<open>\<open>String.prototype.replace\<close> with a global literal pattern\<close>

text \<open>
  \<open>s.replace(/pat/g, rep)\<close> for a pattern without metacharacters and a replacement
  without \<open>$\<close>: the matches are found left to right and do not overlap. The source
  only uses non-empty patterns; for the empty pattern the text is returned as it is.
\<close>

function replace_all :: "jstring \<Rightarrow> jstring \<Rightarrow> jstring \<Rightarrow> jstring" where
  "replace_all pat rep [] = []"
| "replace_all pat rep (c # cs) =
     (if pat \<noteq> [] \<and> prefix pat (c # cs)
      then rep @ replace_all pat rep (drop (length pat) (c # cs))
      else c # replace_all pat rep cs)"
  by pat_completeness auto
termination
  by (relation "measure (\<lambda>(pat, rep, s). length s)") auto

section \<open>The validator and the quasi-JSON normalizer\<close>

definition requiredStringFields :: "jstring list" where
  "requiredStringFields =
     [str ''order_id'', str ''sender'', str ''receiver'', str ''message'',
      str ''timestamp'', str ''state'']"

definition field_is_nonblank_string :: "json \<Rightarrow> jstring \<Rightarrow> bool" where
  "field_is_nonblank_string data field =
     (case get_prop data field of
        Inr (Some (JString s)) \<Rightarrow> trim s \<noteq> []
      | _ \<Rightarrow> False)"

definition isValidLogisticsStreamStep :: "json \<Rightarrow> bool" where
  "isValidLogisticsStreamStep data =
     (if \<not> truthy (Some data) \<or> \<not> typeof_object data then False
      else list_all (field_is_nonblank_string data) requiredStringFields)"

definition string_field :: "json \<Rightarrow> jstring \<Rightarrow> jstring" where
  "string_field data field =
     (case get_prop data field of Inr (Some (JString s)) \<Rightarrow> s | _ \<Rightarrow> [])"

text \<open>
  The event object handed to \<open>addEvent\<close>, read as a \<open>LogisticsStreamStep\<close>: its six
  declared fields. It is only used on an object that passed the validator.
\<close>

definition to_step :: "json \<Rightarrow> LogisticsStreamStep" where
  "to_step data =
     \<lparr>order_id = string_field data (str ''order_id''),
      sender = string_field data (str ''sender''),
      receiver = string_field data (str ''receiver''),
      message = string_field data (str ''message''),
      timestamp = string_field data (str ''timestamp''),
      state = string_field data (str ''state'')\<rparr>"

text \<open>The sentinels \<open>{'\<close> and \<open>{"\<close> of a literal-style response.\<close>

definition SENTINEL_SINGLE :: jstring where
  "SENTINEL_SINGLE = [123, 39]"

definition SENTINEL_DOUBLE :: jstring where
  "SENTINEL_DOUBLE = [123, 34]"

definition normalize :: "jstring \<Rightarrow> jstring" where
  "normalize response =
     replace_all (str ''None'') (str ''null'')
       (replace_all (str ''False'') (str ''false'')
         (replace_all (str ''True'') (str ''true'')
           (replace_all [39] [34] response)))"

section \<open>The concatenated-object pipeline: \<open>startStreaming\<close>\<close>

datatype console_entry =
    ErrorParsingDictString jstring
  | ErrorParsingJSONObject jstring
  | StreamingError thrown
  | ErrorParsingStreamLine jstring

text \<open>The store together with the console the pipeline logs to.\<close>

record group_env =
  store :: LogisticsStreamingState
  console :: "console_entry list"

definition log_error :: "console_entry \<Rightarrow> group_env \<Rightarrow> group_env" where
  "log_error entry w = w\<lparr>console := console w @ [entry]\<rparr>"

definition on_store :: "(LogisticsStreamingState \<Rightarrow> LogisticsStreamingState) \<Rightarrow> group_env \<Rightarrow> group_env" where
  "on_store f w = w\<lparr>store := f (store w)\<rparr>"

text \<open>
  The brace scan of the inner \<open>for\<close> loop: \<open>i\<close> is the index of \<open>c\<close> in \<open>remaining\<close>;
  the result is \<open>jsonEnd\<close>, with \<open>None\<close> for \<open>-1\<close>.
\<close>

fun scan_braces :: "jstring \<Rightarrow> nat \<Rightarrow> int \<Rightarrow> nat option" where
  "scan_braces [] i braceCount = None"
| "scan_braces (c # cs) i braceCount =
     (if c = 123 then scan_braces cs (i + 1) (braceCount + 1)
      else if c = 125 then
        (if braceCount - 1 = 0 then Some i else scan_braces cs (i + 1) (braceCount - 1))
      else scan_braces cs (i + 1) braceCount)"

definition find_json_end :: "jstring \<Rightarrow> nat option" where
  "find_json_end remaining = scan_braces remaining 0 0"

lemma scan_braces_bounds:
  "scan_braces cs i b = Some j \<Longrightarrow> i \<le> j \<and> j < i + length cs"
  by (induction cs i b rule: scan_braces.induct) (fastforce split: if_splits)+

lemma find_json_end_less: "find_json_end r = Some j \<Longrightarrow> j < length r"
  using scan_braces_bounds [of r 0 0 j] by (simp add: find_json_end_def)

text \<open>
  The body of the \<open>while (remaining.length > 0)\<close> loop for one extracted \<open>jsonStr\<close>:
  the new state and whether \<open>startStreaming\<close> returned.
\<close>

definition handle_frame :: "group_env \<Rightarrow> jstring \<Rightarrow> group_env \<times> bool" where
  "handle_frame w jsonStr =
     (case JSON_parse jsonStr of
        None \<Rightarrow> (log_error (ErrorParsingJSONObject jsonStr) w, False)
      | Some parsed \<Rightarrow>
          (case get_prop parsed (str ''response'') of
             Inl e \<Rightarrow> (log_error (ErrorParsingJSONObject jsonStr) w, False)
           | Inr (Some (JString response)) \<Rightarrow>
               if response \<noteq> [] then
                 (if startsWith response SENTINEL_SINGLE \<or> startsWith response SENTINEL_DOUBLE
                  then
                    (case JSON_parse (normalize response) of
                       None \<Rightarrow> (log_error (ErrorParsingDictString response) w, False)
                     | Some eventObj \<Rightarrow>
                         if isValidLogisticsStreamStep eventObj
                         then (on_store (addEvent (to_step eventObj)) w, False)
                         else (w, False))
                  else (on_store (setFinalResponse response) w, True))
               else (w, False)
           | Inr _ \<Rightarrow> (w, False)))"

text \<open>
  The \<open>while (remaining.length > 0)\<close> loop: the state, the text kept in \<open>buffer\<close>, and
  whether \<open>startStreaming\<close> returned on a final response.
\<close>

function process_remaining :: "group_env \<Rightarrow> jstring \<Rightarrow> group_env \<times> jstring \<times> bool" where
  "process_remaining w remaining =
     (if remaining = [] then (w, remaining, False)
      else case find_json_end remaining of
        None \<Rightarrow> (w, remaining, False)
      | Some jsonEnd \<Rightarrow>
          (let jsonStr = take (jsonEnd + 1) remaining;
               remaining' = drop (jsonEnd + 1) remaining
           in case handle_frame w jsonStr of
                (w', True) \<Rightarrow> (w', remaining', True)
              | (w', False) \<Rightarrow> process_remaining w' remaining'))"
  by pat_completeness auto
termination
  by (relation "measure (\<lambda>(w, r). length r)") (auto dest: find_json_end_less)

declare process_remaining.simps [simp del]

text \<open>
  The framing alone: the complete values the loop cuts out of a text, in order, and the
  text it retains. One extraction step takes the old buffer and a chunk.
\<close>

function extract_frames :: "jstring \<Rightarrow> jstring list \<times> jstring" where
  "extract_frames remaining =
     (if remaining = [] then ([], [])
      else case find_json_end remaining of
        None \<Rightarrow> ([], remaining)
      | Some jsonEnd \<Rightarrow>
          (let jsonStr = take (jsonEnd + 1) remaining;
               rest = extract_frames (drop (jsonEnd + 1) remaining)
           in (jsonStr # fst rest, snd rest)))"
  by pat_completeness auto
termination
  by (relation "measure length") (auto dest: find_json_end_less)

declare extract_frames.simps [simp del]

definition extract_step :: "jstring \<Rightarrow> jstring \<Rightarrow> jstring list \<times> jstring" where
  "extract_step oldBuffer chunk = extract_frames (oldBuffer @ chunk)"

fun feed_chunks :: "jstring \<Rightarrow> jstring list \<Rightarrow> jstring list \<times> jstring" where
  "feed_chunks buffer [] = ([], buffer)"
| "feed_chunks buffer (chunk # chunks) =
     (let r = extract_step buffer chunk;
          rs = feed_chunks (snd r) chunks
      in (fst r @ fst rs, snd rs))"

text \<open>The frames handled in order, up to the one on which \<open>startStreaming\<close> returns.\<close>

fun handle_frames :: "group_env \<Rightarrow> jstring list \<Rightarrow> group_env \<times> bool" where
  "handle_frames w [] = (w, False)"
| "handle_frames w (f # fs) =
     (case handle_frame w f of
        (w', True) \<Rightarrow> (w', True)
      | (w', False) \<Rightarrow> handle_frames w' fs)"

text \<open>
  The outcome of one \<open>await reader.read()\<close>: a decoded chunk, the end of the body, or
  a rejection.
\<close>

datatype read_result = ReadValue jstring | ReadDone | ReadThrow thrown

datatype 'w progress = Reading 'w jstring | Settled 'w

definition error_message :: "thrown \<Rightarrow> jstring" where
  "error_message e = (case e of ErrorInstance m \<Rightarrow> m | OtherValue \<Rightarrow> str ''Streaming failed'')"

definition on_catch :: "thrown \<Rightarrow> group_env \<Rightarrow> group_env" where
  "on_catch e w = on_store (setError (error_message e)) (log_error (StreamingError e) w)"

text \<open>The synchronous start of \<open>startStreaming\<close>, before the request is awaited.\<close>

definition startStreaming_begin :: "group_env \<Rightarrow> group_env" where
  "startStreaming_begin w = on_store (setStreaming True) (on_store reset w)"

text \<open>
  What \<open>fetch\<close> settles to: a rejection, or a response with its \<open>ok\<close> flag, its status
  (as the decimal text the template prints), its \<open>statusText\<close>, and whether the body
  has a reader.
\<close>

datatype fetch_result =
    FetchThrow thrown
  | FetchResponse bool jstring jstring bool

text \<open>
  The response arrives: a rejection, a non-OK status and a missing body all reach the
  \<open>catch\<close>; otherwise reading starts with an empty buffer.
\<close>

definition startStreaming_response :: "group_env \<Rightarrow> fetch_result \<Rightarrow> group_env progress" where
  "startStreaming_response w r =
     (case r of
        FetchThrow e \<Rightarrow> Settled (on_catch e w)
      | FetchResponse is_ok status text reader \<Rightarrow>
          if \<not> is_ok then
            Settled (on_catch (ErrorInstance (str ''HTTP '' @ status @ str '': '' @ text)) w)
          else if \<not> reader then
            Settled (on_catch (ErrorInstance (str ''No response body reader available'')) w)
          else Reading w [])"

text \<open>One iteration of the \<open>while (true)\<close> read loop.\<close>

definition read_step :: "group_env \<Rightarrow> jstring \<Rightarrow> read_result \<Rightarrow> group_env progress" where
  "read_step w buffer r =
     (case r of
        ReadDone \<Rightarrow> Settled (on_store (setComplete True) w)
      | ReadThrow e \<Rightarrow> Settled (on_catch e w)
      | ReadValue chunk \<Rightarrow>
          (case process_remaining w (buffer @ chunk) of
             (w', buffer', True) \<Rightarrow> Settled w'
           | (w', buffer', False) \<Rightarrow> Reading w' buffer'))"

text \<open>The read loop over the outcomes of successive reads; nothing is read once settled.\<close>

fun read_loop :: "group_env progress \<Rightarrow> read_result list \<Rightarrow> group_env progress" where
  "read_loop (Settled w) rs = Settled w"
| "read_loop (Reading w buffer) [] = Reading w buffer"
| "read_loop (Reading w buffer) (r # rs) = read_loop (read_step w buffer r) rs"

definition startStreaming :: "group_env \<Rightarrow> fetch_result \<Rightarrow> read_result list \<Rightarrow> group_env progress" where
  "startStreaming w response reads =
     read_loop (startStreaming_response (startStreaming_begin w) response) reads"

fun env_of :: "'w progress \<Rightarrow> 'w" where
  "env_of (Reading w buffer) = w"
| "env_of (Settled w) = w"

section \<open>The agent API hook: \<open>useAgentAPI\<close>\<close>

datatype Role = USER | ASSISTANT

text \<open>
  A message id is the literal \<open>"loading-placeholder"\<close> or a string made by \<open>uuid()\<close>;
  the n-th identifier made is \<open>Uuid n\<close>, so two calls never give the same one and none
  gives the placeholder's.
\<close>

datatype ident = LoadingPlaceholder | Uuid nat

text \<open>
  The content of a message is typed \<open>string\<close>, but what is stored is whatever the wire
  delivered. A content is kept as the JavaScript sum \<open>v1 + v2 + ... + vn\<close> of the values
  it was built from, left to right; a sum of two strings is their concatenation.
\<close>

type_synonym js_sum = "json list"

fun js_plus :: "js_sum \<Rightarrow> json \<Rightarrow> js_sum" where
  "js_plus [JString a] (JString b) = [JString (a @ b)]"
| "js_plus vs v = vs @ [v]"

text \<open>
  Modelled from the spec: the type \<open>Message\<close> of \<open>types/message\<close> is imported by the
  hook but its declaration is not available; it is the record of the four fields the
  hook writes in every message it builds (\<open>id\<close> is named \<open>msg_id\<close> here).
\<close>

record Message =
  role :: Role
  content :: js_sum
  msg_id :: ident
  animate :: bool

text \<open>
  Which of the optional callbacks the caller supplied. A callback is an action of the
  caller: the model records each invocation, in order, and takes it to return normally.
\<close>

record callbacks =
  has_onStart :: bool
  has_onSuccess :: bool
  has_onError :: bool
  has_onNodeHighlight :: bool

datatype callback_event =
    OnStart
  | OnSuccess json
  | OnError thrown
  | OnNodeHighlight json

datatype http_request =
    PostPrompt jstring
  | PostPromptStream jstring ident

text \<open>
  The state the hook works on: its own (\<open>loading\<close>, \<open>requestIdRef.current\<close>,
  \<open>abortRef.current\<close> as the generation whose controller it holds), the session
  storage entry \<open>provisioning_thread_id\<close>, the caller's message list behind
  \<open>setMessages\<close>, and what leaves the hook: the callbacks invoked, the console, the
  controllers aborted and the requests issued. \<open>wsRef.current\<close> is never assigned
  anything but \<open>null\<close> and is left out. The generation counter is a JavaScript number,
  exact far beyond any number of requests, and is modelled by a natural number.
\<close>

record api_state =
  loading :: bool
  requestIdRef :: nat
  abortRef :: "nat option"
  aborted :: "nat list"
  thread_id :: "ident option"
  messages :: "Message list"
  callback_log :: "callback_event list"
  api_console :: "console_entry list"
  requests :: "http_request list"
  uuid_count :: nat

definition uuid :: "api_state \<Rightarrow> ident \<times> api_state" where
  "uuid st = (Uuid (uuid_count st), st\<lparr>uuid_count := uuid_count st + 1\<rparr>)"

definition invoke :: "bool \<Rightarrow> callback_event \<Rightarrow> api_state \<Rightarrow> api_state" where
  "invoke supplied ev st = (if supplied then st\<lparr>callback_log := callback_log st @ [ev]\<rparr> else st)"

definition console_error :: "console_entry \<Rightarrow> api_state \<Rightarrow> api_state" where
  "console_error entry st = st\<lparr>api_console := api_console st @ [entry]\<rparr>"

definition not_placeholder :: "Message \<Rightarrow> bool" where
  "not_placeholder m = (msg_id m \<noteq> LoadingPlaceholder)"


definition cancel :: "api_state \<Rightarrow> api_state" where
  "cancel st =
     (let st1 = (case abortRef st of
                   Some c \<Rightarrow> st\<lparr>aborted := aborted st @ [c]\<rparr>
                 | None \<Rightarrow> st)
      in st1\<lparr>requestIdRef := requestIdRef st1 + 1, loading := False\<rparr>)"

subsection \<open>\<open>sendMessage\<close>\<close>

text \<open>
  The synchronous part of \<open>sendMessage\<close>, up to the request: the error thrown or the
  generation taken, and the state.
\<close>

definition sendMessage_begin :: "jstring \<Rightarrow> api_state \<Rightarrow> (thrown + nat) \<times> api_state" where
  "sendMessage_begin prompt st =
     (if trim prompt = [] then (Inl (ErrorInstance (str ''Prompt cannot be empty'')), st)
      else
        (let myRequestId = requestIdRef st + 1
         in (Inr myRequestId,
             st\<lparr>loading := True, abortRef := Some myRequestId, requestIdRef := myRequestId,
                requests := requests st @ [PostPrompt prompt]\<rparr>)))"


subsection \<open>\<open>sendMessageWithCallback\<close>\<close>

text \<open>
  The helpers of \<open>utils/patternUtils\<close> are not among the sources. Which branch a
  call takes (\<open>isProvisioningPattern\<close>) is the choice between \<open>stream_begin\<close> and
  \<open>http_begin\<close> below; the URL (\<open>getApiUrlForPattern\<close>) is left out of the recorded
  request; whether retries are enabled (\<open>shouldEnableRetries\<close>) only decides who
  issues the request, and the outcome of the call is an input of the model either way.
\<close>

definition THINKING :: jstring where
  "THINKING = str ''Thinking . . . '' @ [55358, 56800]"

text \<open>
  The common start: a new generation, the user's message and the placeholder appended,
  \<open>loading\<close> set, \<open>onStart\<close> called.
\<close>

definition sendMessageWithCallback_begin :: "jstring \<Rightarrow> callbacks \<Rightarrow> api_state \<Rightarrow> nat \<times> api_state" where
  "sendMessageWithCallback_begin prompt cbs st =
     (let myRequestId = requestIdRef st + 1;
          st1 = st\<lparr>requestIdRef := myRequestId\<rparr>;
          (uid, st2) = uuid st1;
          userMessage = \<lparr>role = USER, content = [JString prompt], msg_id = uid, animate = False\<rparr>;
          loadingMessage = \<lparr>role = ASSISTANT, content = [JString THINKING],
                            msg_id = LoadingPlaceholder, animate = True\<rparr>;
          st3 = st2\<lparr>messages := messages st2 @ [userMessage, loadingMessage], loading := True\<rparr>
      in (myRequestId, invoke (has_onStart cbs) OnStart st3))"

text \<open>The local variables of one streaming call.\<close>

record stream_ctx =
  myRequestId :: nat
  threadId :: ident
  activeAssistantMessageId :: ident

text \<open>The provisioning branch up to the \<open>fetch\<close>.\<close>

definition stream_begin :: "jstring \<Rightarrow> nat \<Rightarrow> api_state \<Rightarrow> stream_ctx \<times> api_state" where
  "stream_begin prompt rid st =
     (let st1 = st\<lparr>abortRef := Some rid\<rparr>;
          (tid, st2) = (case thread_id st1 of Some t \<Rightarrow> (t, st1) | None \<Rightarrow> uuid st1);
          st3 = st2\<lparr>thread_id := Some tid\<rparr>;
          (active, st4) = uuid st3
      in (\<lparr>myRequestId = rid, threadId = tid, activeAssistantMessageId = active\<rparr>,
          st4\<lparr>requests := requests st4 @ [PostPromptStream prompt tid]\<rparr>))"

fun findIndex :: "('a \<Rightarrow> bool) \<Rightarrow> 'a list \<Rightarrow> nat option" where
  "findIndex P [] = None"
| "findIndex P (x # xs) = (if P x then Some 0 else map_option Suc (findIndex P xs))"

text \<open>The updater passed to \<open>setMessages\<close> for a text delta.\<close>

definition append_chunk :: "ident \<Rightarrow> json \<Rightarrow> Message list \<Rightarrow> Message list" where
  "append_chunk active chunk prevMessages =
     (let filtered = filter not_placeholder prevMessages
      in case findIndex (\<lambda>m. msg_id m = active) filtered of
           Some existingIndex \<Rightarrow>
             filtered[existingIndex :=
               (filtered ! existingIndex)
                 \<lparr>content := js_plus (content (filtered ! existingIndex)) chunk,
                  animate := False\<rparr>]
         | None \<Rightarrow>
             filtered @ [\<lparr>role = ASSISTANT, content = [chunk], msg_id = active, animate = True\<rparr>])"

text \<open>\<open>v || ""\<close> for a value read from parsed JSON.\<close>

definition or_empty :: "json option \<Rightarrow> json" where
  "or_empty v = (case v of Some x \<Rightarrow> (if truthy (Some x) then x else JString []) | None \<Rightarrow> JString [])"

text \<open>The body of \<open>for (const line of lines)\<close>.\<close>

definition process_line :: "stream_ctx \<Rightarrow> callbacks \<Rightarrow> api_state \<Rightarrow> jstring \<Rightarrow> api_state" where
  "process_line ctx cbs st line =
     (if trim line = [] then st
      else case JSON_parse line of
        None \<Rightarrow> console_error (ErrorParsingStreamLine line) st
      | Some data \<Rightarrow>
          (case get_prop data (str ''response'') of
             Inl e \<Rightarrow> console_error (ErrorParsingStreamLine line) st
           | Inr response \<Rightarrow>
               (let chunk = or_empty response;
                    nodeId = (case get_prop data (str ''node'') of Inr n \<Rightarrow> n | Inl e \<Rightarrow> None);
                    st1 = (case nodeId of
                             Some n \<Rightarrow> invoke (truthy nodeId \<and> has_onNodeHighlight cbs)
                                         (OnNodeHighlight n) st
                           | None \<Rightarrow> st)
                in if truthy (Some chunk)
                   then st1\<lparr>messages :=
                          append_chunk (activeAssistantMessageId ctx) chunk (messages st1)\<rparr>
                   else st1)))"

fun process_lines :: "stream_ctx \<Rightarrow> callbacks \<Rightarrow> api_state \<Rightarrow> jstring list \<Rightarrow> api_state" where
  "process_lines ctx cbs st [] = st"
| "process_lines ctx cbs st (line # lines) =
     process_lines ctx cbs (process_line ctx cbs st line) lines"

text \<open>\<open>s.split('\n')\<close>: never empty; its last element is the text after the last newline.\<close>

fun split_lines :: "jstring \<Rightarrow> jstring list" where
  "split_lines [] = [[]]"
| "split_lines (c # cs) =
     (if c = 10 then [] # split_lines cs
      else (case split_lines cs of
              l # ls \<Rightarrow> (c # l) # ls
            | [] \<Rightarrow> [[c]]))"

text \<open>After the loop: only the current generation clears \<open>loading\<close> and reports success.\<close>

definition stream_finish :: "stream_ctx \<Rightarrow> callbacks \<Rightarrow> api_state \<Rightarrow> api_state" where
  "stream_finish ctx cbs st =
     (if requestIdRef st = myRequestId ctx
      then invoke (has_onSuccess cbs) (OnSuccess (JString (str ''Workflow completed'')))
             (st\<lparr>loading := False\<rparr>)
      else st)"

text \<open>The \<open>catch\<close> of the streaming branch.\<close>

definition stream_catch :: "stream_ctx \<Rightarrow> callbacks \<Rightarrow> thrown \<Rightarrow> api_state \<Rightarrow> api_state" where
  "stream_catch ctx cbs e st =
     (let st1 =
        (if requestIdRef st = myRequestId ctx then
           (let (uid, s1) = uuid st
            in s1\<lparr>messages := filter not_placeholder (messages s1) @
                     [\<lparr>role = ASSISTANT,
                       content = [JString (str ''Error: Failed to fetch stream.'')],
                       msg_id = uid, animate = False\<rparr>],
                  loading := False\<rparr>)
         else st)
      in invoke (has_onError cbs) (OnError e) st1)"

definition stream_response :: "stream_ctx \<Rightarrow> callbacks \<Rightarrow> api_state \<Rightarrow> fetch_result \<Rightarrow> api_state progress" where
  "stream_response ctx cbs st r =
     (case r of
        FetchThrow e \<Rightarrow> Settled (stream_catch ctx cbs e st)
      | FetchResponse is_ok status text reader \<Rightarrow>
          if \<not> is_ok then
            Settled (stream_catch ctx cbs
                       (ErrorInstance (str ''HTTP error! status: '' @ status)) st)
          else if \<not> reader then
            Settled (stream_catch ctx cbs (ErrorInstance (str ''No response body'')) st)
          else Reading st [])"

text \<open>
  One iteration of the read loop: the loop is left when the body ends or when the
  generation is no longer this call's.
\<close>

definition stream_read :: "stream_ctx \<Rightarrow> callbacks \<Rightarrow> api_state \<Rightarrow> jstring \<Rightarrow> read_result \<Rightarrow> api_state progress" where
  "stream_read ctx cbs st buffer r =
     (case r of
        ReadThrow e \<Rightarrow> Settled (stream_catch ctx cbs e st)
      | ReadDone \<Rightarrow> Settled (stream_finish ctx cbs st)
      | ReadValue chunk \<Rightarrow>
          if requestIdRef st \<noteq> myRequestId ctx then Settled (stream_finish ctx cbs st)
          else
            (let lines = split_lines (buffer @ chunk)
             in Reading (process_lines ctx cbs st (butlast lines)) (last lines)))"

subsection \<open>The non-streaming branch of \<open>sendMessageWithCallback\<close>\<close>

definition http_begin :: "jstring \<Rightarrow> nat \<Rightarrow> api_state \<Rightarrow> api_state" where
  "http_begin prompt rid st =
     st\<lparr>abortRef := Some rid, requests := requests st @ [PostPrompt prompt]\<rparr>"




section \<open>The retry executor\<close>

text \<open>
  Modelled from the spec: \<open>withRetry\<close> and \<open>RETRY_CONFIG\<close> of \<open>utils/retryUtils\<close> are
  imported by the hook but their source is not available. Following the specification
  (section 4.6): the operation is attempted; on a failure with attempts remaining the
  delay \<open>base * 2 ^ attemptIndex\<close> is computed, \<open>onRetry(attempt, error, delay)\<close> is
  invoked, the delay is waited and the operation is attempted again; after
  \<open>maxAttempts\<close> failures the last failure is propagated. \<open>operation i\<close> is the outcome
  of the attempt with index \<open>i\<close> (from 0); the result comes with the \<open>onRetry\<close>
  invocations in order, each \<open>(attempt, error, delay)\<close> with \<open>attempt\<close> counted from 1.
\<close>

function withRetry_from ::
  "(nat \<Rightarrow> 'e + 'a) \<Rightarrow> nat \<Rightarrow> nat \<Rightarrow> nat \<Rightarrow> (nat \<times> 'e \<times> nat) list
     \<Rightarrow> ('e + 'a) \<times> (nat \<times> 'e \<times> nat) list" where
  "withRetry_from operation maxAttempts base attemptIndex observed =
     (case operation attemptIndex of
        Inr v \<Rightarrow> (Inr v, observed)
      | Inl e \<Rightarrow>
          if attemptIndex + 1 < maxAttempts
          then withRetry_from operation maxAttempts base (attemptIndex + 1)
                 (observed @ [(attemptIndex + 1, e, base * 2 ^ attemptIndex)])
          else (Inl e, observed))"
  by pat_completeness auto
termination
  by (relation "measure (\<lambda>(operation, maxAttempts, base, attemptIndex, observed).
        maxAttempts - attemptIndex)") auto

declare withRetry_from.simps [simp del]

text \<open>
  Modelled from the spec: the executor itself, started at attempt index 0 with nothing
  observed yet (see \<open>withRetry_from\<close> for what is missing from the sources).
\<close>

definition withRetry ::
  "(nat \<Rightarrow> 'e + 'a) \<Rightarrow> nat \<Rightarrow> nat \<Rightarrow> ('e + 'a) \<times> (nat \<times> 'e \<times> nat) list" where
  "withRetry operation maxAttempts base = withRetry_from operation maxAttempts base 0 []"

section \<open>Literal-style texts and sample data\<close>

text \<open>
  The literal-style text of a dictionary of string members, as the backend prints it:
  \<open>{'k1': 'v1', 'k2': 'v2'}\<close>, each name and value written verbatim between single
  quotes.
\<close>

definition quoted :: "jstring \<Rightarrow> jstring" where
  "quoted s = [39] @ s @ [39]"

definition lit_member :: "jstring \<times> jstring \<Rightarrow> jstring" where
  "lit_member kv = quoted (fst kv) @ str '': '' @ quoted (snd kv)"

fun literal_dict :: "(jstring \<times> jstring) list \<Rightarrow> jstring" where
  "literal_dict [] = [123, 125]"
| "literal_dict (kv # kvs) =
     [123] @ lit_member kv @ concat (map (\<lambda>m. str '', '' @ lit_member m) kvs) @ [125]"

text \<open>
  The strict JSON text of the same dictionary, its tokens, and the object it denotes.
\<close>

definition js_member :: "jstring \<times> jstring \<Rightarrow> jstring" where
  "js_member kv = [34] @ fst kv @ [34] @ str '': '' @ [34] @ snd kv @ [34]"

fun json_dict :: "(jstring \<times> jstring) list \<Rightarrow> jstring" where
  "json_dict [] = [123, 125]"
| "json_dict (kv # kvs) =
     [123] @ js_member kv @ concat (map (\<lambda>m. str '', '' @ js_member m) kvs) @ [125]"

definition member_tokens :: "jstring \<times> jstring \<Rightarrow> token list" where
  "member_tokens kv = [TString (fst kv), TColon, TString (snd kv)]"

fun dict_tokens :: "(jstring \<times> jstring) list \<Rightarrow> token list" where
  "dict_tokens [] = [TLBrace, TRBrace]"
| "dict_tokens (kv # kvs) =
     TLBrace # member_tokens kv @ concat (map (\<lambda>m. TComma # member_tokens m) kvs) @ [TRBrace]"

definition dict_object :: "(jstring \<times> jstring) list \<Rightarrow> json" where
  "dict_object kvs = JObject (map (\<lambda>kv. (fst kv, JString (snd kv))) kvs)"

text \<open>
  The value a dictionary gives a name (that of the last member of that name), and
  whether it is a non-blank one.
\<close>

definition member_value :: "(jstring \<times> jstring) list \<Rightarrow> jstring \<Rightarrow> jstring option" where
  "member_value kvs f = map_of (rev kvs) f"

definition has_nonblank :: "(jstring \<times> jstring) list \<Rightarrow> jstring \<Rightarrow> bool" where
  "has_nonblank kvs f = (case member_value kvs f of Some v \<Rightarrow> trim v \<noteq> [] | None \<Rightarrow> False)"

text \<open>
  Text that a JSON string literal holds verbatim: no double quote, no backslash, no
  control character. A name or value is verbatim in a literal-style text when it has no
  single quote either and none of the tokens the normalizer rewrites.
\<close>

definition json_plain :: "jstring \<Rightarrow> bool" where
  "json_plain v = list_all (\<lambda>c. 32 \<le> c \<and> c \<noteq> 34 \<and> c \<noteq> 92) v"

definition plain_chars :: "jstring \<Rightarrow> bool" where
  "plain_chars v = list_all (\<lambda>c. 32 \<le> c \<and> c \<noteq> 34 \<and> c \<noteq> 39 \<and> c \<noteq> 92) v"

definition verbatim :: "jstring \<Rightarrow> bool" where
  "verbatim v =
     (plain_chars v
      \<and> \<not> sublist (str ''True'') v \<and> \<not> sublist (str ''False'') v
      \<and> \<not> sublist (str ''None'') v)"

definition verbatim_member :: "jstring \<times> jstring \<Rightarrow> bool" where
  "verbatim_member kv = (verbatim (fst kv) \<and> verbatim (snd kv))"

text \<open>
  The six members of an event in the order of the validator's list, and the event's
  literal-style text \<open>{'order_id': '...', 'sender': '...', ...}\<close>.
\<close>

definition step_members :: "LogisticsStreamStep \<Rightarrow> (jstring \<times> jstring) list" where
  "step_members e =
     [(str ''order_id'', order_id e), (str ''sender'', sender e), (str ''receiver'', receiver e),
      (str ''message'', message e), (str ''timestamp'', timestamp e), (str ''state'', state e)]"

definition literal_event :: "LogisticsStreamStep \<Rightarrow> jstring" where
  "literal_event e = literal_dict (step_members e)"

definition verbatim_step :: "LogisticsStreamStep \<Rightarrow> bool" where
  "verbatim_step e =
     (verbatim (order_id e) \<and> verbatim (sender e) \<and> verbatim (receiver e)
      \<and> verbatim (message e) \<and> verbatim (timestamp e) \<and> verbatim (state e))"

definition nonblank_step :: "LogisticsStreamStep \<Rightarrow> bool" where
  "nonblank_step e =
     (trim (order_id e) \<noteq> [] \<and> trim (sender e) \<noteq> [] \<and> trim (receiver e) \<noteq> []
      \<and> trim (message e) \<noteq> [] \<and> trim (timestamp e) \<noteq> [] \<and> trim (state e) \<noteq> [])"

text \<open>The frame \<open>{"response": "..."}\<close> around a text.\<close>

definition frame_text :: "jstring \<Rightarrow> jstring" where
  \<open>frame_text r = str ''{"response": "'' @ r @ str ''"}''\<close>

definition sample_step :: "jstring \<Rightarrow> jstring \<Rightarrow> LogisticsStreamStep" where
  "sample_step oid s =
     \<lparr>order_id = oid, sender = str ''A'', receiver = str ''B'', message = str ''hi'',
      timestamp = str ''t'', state = s\<rparr>"

definition group_init :: group_env where
  "group_init = \<lparr>store = initialState, console = []\<rparr>"

definition api_init :: api_state where
  "api_init =
     \<lparr>loading = False, requestIdRef = 0, abortRef = None, aborted = [], thread_id = None,
      messages = [], callback_log = [], api_console = [], requests = [], uuid_count = 0\<rparr>"

definition all_callbacks :: callbacks where
  "all_callbacks =
     \<lparr>has_onStart = True, has_onSuccess = True, has_onError = True, has_onNodeHighlight = True\<rparr>"

definition flaky :: "nat \<Rightarrow> jstring + jstring" where
  "flaky i = (if i = 0 then Inl (str ''timeout'') else if i = 1 then Inl (str ''reset'')
              else Inr (str ''pong''))"

definition failing :: "nat \<Rightarrow> jstring + jstring" where
  "failing i = Inl (str ''down'' @ [48 + i])"

definition delivered_step :: LogisticsStreamStep where
  "delivered_step = sample_step (str ''1'') DELIVERED"

definition in_transit_step :: LogisticsStreamStep where
  "in_transit_step = sample_step (str ''2'') (str ''IN_TRANSIT'')"

definition delivered_frame :: jstring where
  "delivered_frame = frame_text (literal_event delivered_step)"

definition in_transit_frame :: jstring where
  "in_transit_frame = frame_text (literal_event in_transit_step)"

definition streaming_init :: group_env where
  "streaming_init = startStreaming_begin group_init"

definition done_frame :: jstring where
  "done_frame = frame_text (str ''All orders delivered.'')"

definition empty_response_frame :: jstring where
  "empty_response_frame = frame_text []"






definition token_line :: jstring where
  \<open>token_line = str ''{"response": "Hel"}''\<close>

text \<open>The three fragments of the specification's end-to-end scenario.\<close>

definition fragment1 :: jstring where
  \<open>fragment1 = str ''{"respo''\<close>

definition fragment2 :: jstring where
  \<open>fragment2 = str ''nse": "{'order_id': '1', 'sender': 'A', 'receiver':'B','message':'hi','timestamp':'t','sta''\<close>

definition fragment3 :: jstring where
  \<open>fragment3 = str ''te':'DELIVERED'}"}''\<close>

definition fragments_literal :: jstring where
  \<open>fragments_literal = str ''{'order_id': '1', 'sender': 'A', 'receiver':'B','message':'hi','timestamp':'t','state':'DELIVERED'}''\<close>

text \<open>A streaming call of the hook, and the state after it has been cancelled.\<close>

definition first_call :: "nat \<times> api_state" where
  "first_call = sendMessageWithCallback_begin (str ''provision a rack'') all_callbacks api_init"

definition first_stream :: "stream_ctx \<times> api_state" where
  "first_stream = stream_begin (str ''provision a rack'') (fst first_call) (snd first_call)"

definition cancelled_api :: api_state where
  "cancelled_api = cancel (snd first_stream)"

text \<open>Lines of the newline-delimited framing.\<close>

definition heartbeat_line :: jstring where
  \<open>heartbeat_line = str ''{"node": "mapper", "status": "running"}''\<close>

definition noise_line :: jstring where
  "noise_line = str ''event: ping''"

definition blank_line :: jstring where
  "blank_line = [32, 9, 13]"

definition empty_node_line :: jstring where
  \<open>empty_node_line = str ''{"node": "", "status": "running"}''\<close>

section \<open>Lemmas\<close>

subsection \<open>Strings\<close>

lemma dropWhile_all: "(dropWhile P xs = []) = list_all P xs"
  by (induction xs) auto

lemma trim_eq_Nil_iff: "trim s = [] \<longleftrightarrow> list_all is_js_space s"
proof
  assume "trim s = []"
  then have "dropWhile is_js_space (rev (dropWhile is_js_space s)) = []"
    by (simp add: trim_def)
  then have "list_all is_js_space (rev (dropWhile is_js_space s))"
    by (simp only: dropWhile_all)
  then have a: "\<forall>x\<in>set (dropWhile is_js_space s). is_js_space x"
    by (simp add: list_all_iff)
  have "dropWhile is_js_space s = []"
  proof (cases "dropWhile is_js_space s")
    case Nil
    then show ?thesis .
  next
    case (Cons x xs)
    then have "\<not> is_js_space x" using hd_dropWhile [of is_js_space s] by simp
    moreover have "is_js_space x" using a Cons by simp
    ultimately show ?thesis by simp
  qed
  then show "list_all is_js_space s" by (simp only: dropWhile_all)
next
  assume "list_all is_js_space s"
  then have d: "dropWhile is_js_space s = []" by (simp only: dropWhile_all)
  show "trim s = []" unfolding trim_def d by simp
qed

lemma replace_all_single:
  "replace_all [a] [b] s = map (\<lambda>c. if c = a then b else c) s"
  by (induction s) auto

lemma replace_all_no_match:
  "\<not> sublist pat s \<Longrightarrow> replace_all pat rep s = s"
proof (induction s)
  case Nil
  show ?case by simp
next
  case (Cons c cs)
  then have "\<not> prefix pat (c # cs)" and "\<not> sublist pat cs"
    by (auto simp: sublist_Cons_right)
  with Cons.IH show ?case by simp
qed

lemma prefix_separator:
  assumes "q \<notin> set pat"
  shows "prefix pat (xs @ q # ys) \<longleftrightarrow> prefix pat xs"
proof
  assume "prefix pat (xs @ q # ys)"
  then consider "prefix pat xs" | us where "pat = xs @ us" "prefix us (q # ys)"
    by (auto simp: prefix_append)
  then show "prefix pat xs"
  proof cases
    case 1
    then show ?thesis .
  next
    case 2
    show ?thesis
    proof (cases us)
      case Nil
      with 2 show ?thesis by simp
    next
      case (Cons u vs)
      with 2 have "u = q" by simp
      with Cons 2(1) assms show ?thesis by simp
    qed
  qed
next
  assume "prefix pat xs"
  then show "prefix pat (xs @ q # ys)" by (rule prefix_prefix)
qed

lemma sublist_separator:
  assumes "q \<notin> set pat"
  shows "sublist pat (xs @ q # ys) \<longleftrightarrow> sublist pat xs \<or> sublist pat ys"
proof (induction xs)
  case Nil
  show ?case
  proof (cases pat)
    case Nil
    then show ?thesis by simp
  next
    case (Cons p ps)
    with assms have "p \<noteq> q" by auto
    with Cons show ?thesis by (simp add: sublist_Cons_right)
  qed
next
  case (Cons x xs)
  have "prefix pat (x # xs @ q # ys) \<longleftrightarrow> prefix pat (x # xs)"
    using prefix_separator [OF assms, of "x # xs" ys] by simp
  with Cons.IH show ?case
    by (auto simp: sublist_Cons_right)
qed

lemma sublist_Cons_other:
  "pat \<noteq> [] \<Longrightarrow> hd pat \<noteq> c \<Longrightarrow> sublist pat (c # ys) \<longleftrightarrow> sublist pat ys"
  by (cases pat) (auto simp: sublist_Cons_right)

subsection \<open>Parsing\<close>

lemma js_space_not_token:
  assumes "is_js_space c"
  shows "c \<noteq> 123" "c \<noteq> 125" "c \<noteq> 91" "c \<noteq> 93" "c \<noteq> 58" "c \<noteq> 44" "c \<noteq> 34"
        "\<not> is_number_char c" "c \<noteq> 116" "c \<noteq> 102" "c \<noteq> 110"
  using assms unfolding is_js_space_def is_number_char_def is_digit_def by presburger+

lemma tokenize_js_space:
  "is_js_space c \<Longrightarrow> tokenize (c # cs) = (if is_json_space c then tokenize cs else None)"
  by (simp add: js_space_not_token str_def)

lemma tokenize_blank:
  "list_all is_js_space s \<Longrightarrow> tokenize s = None \<or> tokenize s = Some []"
proof (induction s)
  case Nil
  show ?case by simp
next
  case (Cons c cs)
  then show ?case by (simp add: tokenize_js_space del: tokenize.simps)
qed

lemma JSON_parse_blank: "list_all is_js_space s \<Longrightarrow> JSON_parse s = None"
  using tokenize_blank [of s] by (auto simp: JSON_parse_def)

lemma JSON_parse_Some_nonblank: "JSON_parse line = Some data \<Longrightarrow> trim line \<noteq> []"
  using JSON_parse_blank [of line] trim_eq_Nil_iff [of line] by auto

lemma plain_quote_map:
  "plain_chars v \<Longrightarrow> map (\<lambda>c. if c = 39 then 34 else c) v = v"
  by (induction v) (auto simp: plain_chars_def)

lemma verbatim_quote_map:
  "verbatim v \<Longrightarrow> map (\<lambda>c. if c = 39 then 34 else c) v = v"
  by (simp add: verbatim_def plain_quote_map)

lemma lex_string_plain:
  "json_plain v \<Longrightarrow> lex_string (v @ 34 # rest) = Some (v, rest)"
  by (induction v) (auto simp: json_plain_def cons_char_def)

lemma tokenize_string:
  "json_plain v \<Longrightarrow> tokenize (34 # v @ 34 # rest) = cons_token (TString v) (tokenize rest)"
  by (simp add: lex_string_plain is_json_space_def)

lemma tokenize_key:
  "json_plain (str k) \<Longrightarrow>
     tokenize (34 # str k @ 34 # rest) = cons_token (TString (str k)) (tokenize rest)"
  by (rule tokenize_string)

lemma plain_chars_json_plain: "plain_chars v \<Longrightarrow> json_plain v"
  by (induction v) (auto simp: plain_chars_def json_plain_def)

lemma tokenize_punct:
  "tokenize (123 # rest) = cons_token TLBrace (tokenize rest)"
  "tokenize (125 # rest) = cons_token TRBrace (tokenize rest)"
  "tokenize (58 # rest) = cons_token TColon (tokenize rest)"
  "tokenize (44 # rest) = cons_token TComma (tokenize rest)"
  "tokenize (32 # rest) = tokenize rest"
  by (simp_all add: is_json_space_def)

lemma JSON_parse_frame_text:
  assumes "json_plain r"
  shows "JSON_parse (frame_text r) = Some (JObject [(str ''response'', JString r)])"
proof -
  have k: "json_plain (str ''response'')" by (simp add: json_plain_def str_def)
  have "frame_text r = 123 # 34 # str ''response'' @ 34 # 58 # 32 # 34 # r @ 34 # [125]"
    by (simp add: frame_text_def str_def)
  then have "tokenize (frame_text r) =
      Some [TLBrace, TString (str ''response''), TColon, TString r, TRBrace]"
    by (simp add: tokenize_key [OF k] tokenize_string [OF assms] tokenize_punct cons_token_def
          del: tokenize.simps(2))
  then show ?thesis by (simp add: JSON_parse_def)
qed

lemma json_plain_append: "json_plain (a @ b) \<longleftrightarrow> json_plain a \<and> json_plain b"
  by (simp add: json_plain_def)

lemma verbatim_json_plain: "verbatim v \<Longrightarrow> json_plain v"
  by (simp add: verbatim_def plain_chars_json_plain)

lemma quote_map_member:
  "verbatim_member kv \<Longrightarrow> map (\<lambda>c. if c = 39 then 34 else c) (lit_member kv) = js_member kv"
  by (simp add: verbatim_member_def lit_member_def js_member_def quoted_def verbatim_quote_map
        str_def)

lemma quote_map_rest:
  "list_all verbatim_member kvs \<Longrightarrow>
     map (\<lambda>c. if c = 39 then 34 else c) (concat (map (\<lambda>m. str '', '' @ lit_member m) kvs))
       = concat (map (\<lambda>m. str '', '' @ js_member m) kvs)"
  by (induction kvs) (simp_all add: quote_map_member str_def)

lemma quotes_replaced_dict:
  "list_all verbatim_member kvs \<Longrightarrow> replace_all [39] [34] (literal_dict kvs) = json_dict kvs"
  by (cases kvs) (simp_all add: replace_all_single quote_map_member quote_map_rest)

lemma js_member_no_token:
  assumes "pat \<noteq> []" and "hd pat = 84 \<or> hd pat = 70 \<or> hd pat = 78" and "34 \<notin> set pat"
    and "\<not> sublist pat (fst kv)" and "\<not> sublist pat (snd kv)"
  shows "sublist pat (js_member kv @ rest) \<longleftrightarrow> sublist pat rest"
  using assms
  by (auto simp: js_member_def str_def sublist_Cons_other sublist_separator)

lemma rest_no_token:
  assumes "pat \<noteq> []" and "hd pat = 84 \<or> hd pat = 70 \<or> hd pat = 78" and "34 \<notin> set pat"
    and "list_all (\<lambda>kv. \<not> sublist pat (fst kv) \<and> \<not> sublist pat (snd kv)) kvs"
  shows "sublist pat (concat (map (\<lambda>m. str '', '' @ js_member m) kvs) @ rest) \<longleftrightarrow> sublist pat rest"
  using assms(4)
proof (induction kvs)
  case Nil
  show ?case by simp
next
  case (Cons kv kvs)
  have "sublist pat (str '', '' @ js_member kv @ concat (map (\<lambda>m. str '', '' @ js_member m) kvs) @ rest)
        \<longleftrightarrow> sublist pat (js_member kv @ concat (map (\<lambda>m. str '', '' @ js_member m) kvs) @ rest)"
    using assms(1,2) by (auto simp: str_def sublist_Cons_other)
  also have "\<dots> \<longleftrightarrow> sublist pat (concat (map (\<lambda>m. str '', '' @ js_member m) kvs) @ rest)"
    using Cons.prems by (intro js_member_no_token assms) simp_all
  also have "\<dots> \<longleftrightarrow> sublist pat rest"
    using Cons by simp
  finally show ?case by simp
qed

lemma json_dict_no_token:
  assumes "pat \<noteq> []" and "hd pat = 84 \<or> hd pat = 70 \<or> hd pat = 78" and "34 \<notin> set pat"
    and "list_all (\<lambda>kv. \<not> sublist pat (fst kv) \<and> \<not> sublist pat (snd kv)) kvs"
  shows "\<not> sublist pat (json_dict kvs)"
proof (cases kvs)
  case Nil
  then show ?thesis using assms(1,2) by (auto simp: sublist_Cons_other)
next
  case (Cons kv rest)
  have "sublist pat (json_dict kvs) \<longleftrightarrow>
          sublist pat (js_member kv @ concat (map (\<lambda>m. str '', '' @ js_member m) rest) @ [125])"
    using assms(1,2) Cons by (auto simp: sublist_Cons_other)
  also have "\<dots> \<longleftrightarrow> sublist pat (concat (map (\<lambda>m. str '', '' @ js_member m) rest) @ [125])"
    using assms(4) Cons by (intro js_member_no_token assms) simp_all
  also have "\<dots> \<longleftrightarrow> sublist pat [125]"
    using assms(4) Cons by (intro rest_no_token assms) simp_all
  also have "\<dots> \<longleftrightarrow> False"
    using assms(1,2) by (auto simp: sublist_Cons_other)
  finally show ?thesis by simp
qed

lemma normalize_literal_dict:
  assumes "list_all verbatim_member kvs"
  shows "normalize (literal_dict kvs) = json_dict kvs"
proof -
  have v: "list_all (\<lambda>kv. \<not> sublist pat (fst kv) \<and> \<not> sublist pat (snd kv)) kvs"
    if "pat = str ''True'' \<or> pat = str ''False'' \<or> pat = str ''None''" for pat
    using assms that by (auto simp: list_all_iff verbatim_member_def verbatim_def)
  have t: "\<not> sublist (str ''True'') (json_dict kvs)"
    by (rule json_dict_no_token [OF _ _ _ v]) (simp_all add: str_def)
  have f: "\<not> sublist (str ''False'') (json_dict kvs)"
    by (rule json_dict_no_token [OF _ _ _ v]) (simp_all add: str_def)
  have n: "\<not> sublist (str ''None'') (json_dict kvs)"
    by (rule json_dict_no_token [OF _ _ _ v]) (simp_all add: str_def)
  show ?thesis
    unfolding normalize_def quotes_replaced_dict [OF assms]
    by (simp only: replace_all_no_match [OF t] replace_all_no_match [OF f]
          replace_all_no_match [OF n])
qed


lemma tokenize_member:
  assumes "json_plain (fst kv)" and "json_plain (snd kv)"
  shows "tokenize (js_member kv @ rest) = map_option (\<lambda>ts. member_tokens kv @ ts) (tokenize rest)"
proof -
  have "js_member kv @ rest = 34 # fst kv @ 34 # 58 # 32 # 34 # snd kv @ 34 # rest"
    by (simp add: js_member_def str_def)
  then show ?thesis
    by (simp add: tokenize_string assms tokenize_punct cons_token_def member_tokens_def
          option.map_comp comp_def del: tokenize.simps(2))
qed

lemma tokenize_rest:
  assumes "list_all (\<lambda>kv. json_plain (fst kv) \<and> json_plain (snd kv)) kvs"
  shows "tokenize (concat (map (\<lambda>m. str '', '' @ js_member m) kvs) @ rest) =
           map_option (\<lambda>ts. concat (map (\<lambda>m. TComma # member_tokens m) kvs) @ ts) (tokenize rest)"
  using assms
proof (induction kvs)
  case Nil
  show ?case by (simp add: option.map_ident)
next
  case (Cons kv kvs)
  have "tokenize (str '', '' @ js_member kv @ concat (map (\<lambda>m. str '', '' @ js_member m) kvs) @ rest)
      = cons_token TComma
          (tokenize (js_member kv @ concat (map (\<lambda>m. str '', '' @ js_member m) kvs) @ rest))"
    by (simp add: str_def tokenize_punct del: tokenize.simps(2))
  also have "tokenize (js_member kv @ concat (map (\<lambda>m. str '', '' @ js_member m) kvs) @ rest)
      = map_option (\<lambda>ts. member_tokens kv @ ts)
          (tokenize (concat (map (\<lambda>m. str '', '' @ js_member m) kvs) @ rest))"
    using Cons.prems by (intro tokenize_member) simp_all
  also have "tokenize (concat (map (\<lambda>m. str '', '' @ js_member m) kvs) @ rest)
      = map_option (\<lambda>ts. concat (map (\<lambda>m. TComma # member_tokens m) kvs) @ ts) (tokenize rest)"
    using Cons by simp
  finally show ?case
    by (simp add: cons_token_def option.map_comp comp_def)
qed

lemma tokenize_json_dict:
  assumes "list_all (\<lambda>kv. json_plain (fst kv) \<and> json_plain (snd kv)) kvs"
  shows "tokenize (json_dict kvs) = Some (dict_tokens kvs)"
proof (cases kvs)
  case Nil
  then show ?thesis by (simp add: cons_token_def is_json_space_def)
next
  case (Cons kv rest)
  have "tokenize (json_dict kvs) =
          cons_token TLBrace
            (tokenize (js_member kv @ concat (map (\<lambda>m. str '', '' @ js_member m) rest) @ [125]))"
    using Cons by (simp add: tokenize_punct del: tokenize.simps(2))
  also have "tokenize (js_member kv @ concat (map (\<lambda>m. str '', '' @ js_member m) rest) @ [125])
      = map_option (\<lambda>ts. member_tokens kv @ ts)
          (tokenize (concat (map (\<lambda>m. str '', '' @ js_member m) rest) @ [125]))"
    using assms Cons by (intro tokenize_member) simp_all
  also have "tokenize (concat (map (\<lambda>m. str '', '' @ js_member m) rest) @ [125])
      = map_option (\<lambda>ts. concat (map (\<lambda>m. TComma # member_tokens m) rest) @ ts) (tokenize [125])"
    using assms Cons by (intro tokenize_rest) simp_all
  finally show ?thesis
    using Cons
    by (simp add: cons_token_def tokenize_punct option.map_comp comp_def
          del: tokenize.simps(2))
qed

lemma parse_rest:
  "parse_tokens (MAfter, FObject ms None # st)
     (concat (map (\<lambda>m. TComma # member_tokens m) kvs) @ ts) =
   parse_tokens (MAfter, FObject (ms @ map (\<lambda>kv. (fst kv, JString (snd kv))) kvs) None # st) ts"
  by (induction kvs arbitrary: ms) (simp_all add: member_tokens_def)

lemma parse_dict_tokens:
  "parse_tokens (MValue, []) (dict_tokens kvs) = Some (MDone (dict_object kvs), [])"
proof (cases kvs)
  case Nil
  then show ?thesis by (simp add: dict_object_def)
next
  case (Cons kv rest)
  have "parse_tokens (MValue, []) (dict_tokens kvs) =
          parse_tokens (MAfter, FObject [(fst kv, JString (snd kv))] None # [])
            (concat (map (\<lambda>m. TComma # member_tokens m) rest) @ [TRBrace])"
    using Cons by (simp add: member_tokens_def)
  also have "\<dots> = parse_tokens
      (MAfter, FObject ([(fst kv, JString (snd kv))] @ map (\<lambda>kv. (fst kv, JString (snd kv))) rest) None # [])
      [TRBrace]"
    by (rule parse_rest)
  finally show ?thesis using Cons by (simp add: dict_object_def)
qed

lemma JSON_parse_json_dict:
  assumes "list_all (\<lambda>kv. json_plain (fst kv) \<and> json_plain (snd kv)) kvs"
  shows "JSON_parse (json_dict kvs) = Some (dict_object kvs)"
  by (simp add: JSON_parse_def tokenize_json_dict [OF assms] parse_dict_tokens)

lemma verbatim_members_plain:
  "list_all verbatim_member kvs \<Longrightarrow>
     list_all (\<lambda>kv. json_plain (fst kv) \<and> json_plain (snd kv)) kvs"
  by (auto simp: list_all_iff verbatim_member_def verbatim_json_plain)

lemma JSON_parse_normalized_dict:
  "list_all verbatim_member kvs \<Longrightarrow>
     JSON_parse (normalize (literal_dict kvs)) = Some (dict_object kvs)"
  by (simp add: normalize_literal_dict JSON_parse_json_dict verbatim_members_plain)

lemma map_of_map_snd:
  "map_of (map (\<lambda>kv. (fst kv, g (snd kv))) xs) k = map_option g (map_of xs k)"
  by (induction xs) auto

lemma get_prop_dict_object:
  "get_prop (dict_object kvs) f = Inr (map_option JString (map_of (rev kvs) f))"
  using map_of_map_snd [of JString "rev kvs" f]
  by (simp add: dict_object_def rev_map)

lemma dict_object_valid:
  "isValidLogisticsStreamStep (dict_object kvs) = list_all (has_nonblank kvs) requiredStringFields"
proof -
  have "field_is_nonblank_string (dict_object kvs) f = has_nonblank kvs f" for f
    by (simp add: field_is_nonblank_string_def get_prop_dict_object has_nonblank_def
          member_value_def split: option.splits)
  then show ?thesis
    by (simp add: isValidLogisticsStreamStep_def dict_object_def list_all_iff)
qed

lemma string_field_dict_object:
  "string_field (dict_object kvs) f = (case member_value kvs f of Some v \<Rightarrow> v | None \<Rightarrow> [])"
  by (simp add: string_field_def get_prop_dict_object member_value_def split: option.splits)

lemma literal_dict_sentinel: "kvs \<noteq> [] \<Longrightarrow> startsWith (literal_dict kvs) SENTINEL_SINGLE"
  by (cases kvs) (simp_all add: startsWith_def lit_member_def quoted_def SENTINEL_SINGLE_def)

lemma json_plain_concat: "json_plain (concat xs) = list_all json_plain xs"
  by (induction xs) (simp_all add: json_plain_append json_plain_def)

lemma json_plain_Cons:
  "json_plain (c # cs) = (32 \<le> c \<and> c \<noteq> 34 \<and> c \<noteq> 92 \<and> json_plain cs)"
  "json_plain [] = True"
  by (simp_all add: json_plain_def)

lemma json_plain_lit_member:
  "verbatim_member kv \<Longrightarrow> json_plain (lit_member kv)"
  by (simp add: lit_member_def quoted_def json_plain_append json_plain_Cons verbatim_member_def
        verbatim_json_plain str_def)

lemma json_plain_literal_dict:
  assumes "list_all verbatim_member kvs"
  shows "json_plain (literal_dict kvs)"
proof (cases kvs)
  case Nil
  then show ?thesis by (simp add: json_plain_def)
next
  case (Cons kv rest)
  have "list_all json_plain (map (\<lambda>m. str '', '' @ lit_member m) rest)"
    using assms Cons
    by (auto simp: list_all_iff json_plain_append json_plain_Cons json_plain_lit_member str_def)
  then show ?thesis
    using assms Cons
    by (simp add: json_plain_append json_plain_Cons json_plain_concat json_plain_lit_member)
qed

lemma step_members_verbatim:
  "verbatim_step e \<Longrightarrow> list_all verbatim_member (step_members e)"
  by (simp add: step_members_def verbatim_member_def verbatim_step_def)
     (simp add: verbatim_def plain_chars_def str_def sublist_Cons_right)

lemma step_members_nonblank:
  "nonblank_step e \<Longrightarrow> list_all (has_nonblank (step_members e)) requiredStringFields"
  by (simp add: step_members_def requiredStringFields_def has_nonblank_def member_value_def
        nonblank_step_def str_def)

lemma step_members_valid:
  "nonblank_step e \<Longrightarrow> isValidLogisticsStreamStep (dict_object (step_members e))"
  by (simp add: dict_object_valid step_members_nonblank)

lemma to_step_step_members: "to_step (dict_object (step_members e)) = e"
  by (simp add: to_step_def string_field_dict_object member_value_def step_members_def str_def)


subsection \<open>Frames\<close>

lemma sentinel_nonempty:
  "startsWith r SENTINEL_SINGLE \<or> startsWith r SENTINEL_DOUBLE \<Longrightarrow> r \<noteq> []"
  by (auto simp: startsWith_def SENTINEL_SINGLE_def SENTINEL_DOUBLE_def)

lemma handle_frame_event:
  assumes "JSON_parse f = Some parsed"
    and "get_prop parsed (str ''response'') = Inr (Some (JString r))"
    and "startsWith r SENTINEL_SINGLE \<or> startsWith r SENTINEL_DOUBLE"
    and "JSON_parse (normalize r) = Some obj"
    and "isValidLogisticsStreamStep obj"
  shows "handle_frame w f = (on_store (addEvent (to_step obj)) w, False)"
  using assms sentinel_nonempty [OF assms(3)] by (simp add: handle_frame_def)



lemma handle_frame_final:
  assumes "JSON_parse f = Some parsed"
    and "get_prop parsed (str ''response'') = Inr (Some (JString r))"
    and "r \<noteq> []"
    and "\<not> startsWith r SENTINEL_SINGLE" and "\<not> startsWith r SENTINEL_DOUBLE"
  shows "handle_frame w f = (on_store (setFinalResponse r) w, True)"
  using assms by (simp add: handle_frame_def)

lemma handle_frame_literal_dict:
  assumes "kvs \<noteq> []" and "list_all verbatim_member kvs"
    and "list_all (has_nonblank kvs) requiredStringFields"
  shows "handle_frame w (frame_text (literal_dict kvs))
           = (on_store (addEvent (to_step (dict_object kvs))) w, False)"
proof -
  have g: "get_prop (JObject [(str ''response'', JString (literal_dict kvs))]) (str ''response'')
             = Inr (Some (JString (literal_dict kvs)))"
    by (simp add: str_def)
  show ?thesis
    using handle_frame_event [OF JSON_parse_frame_text [OF json_plain_literal_dict [OF assms(2)]] g
            _ JSON_parse_normalized_dict [OF assms(2)], of w]
          literal_dict_sentinel [OF assms(1)] assms(3)
    by (simp add: dict_object_valid)
qed

lemma handle_frame_literal_event:
  assumes "verbatim_step e" and "nonblank_step e"
  shows "handle_frame w (frame_text (literal_event e)) = (on_store (addEvent e) w, False)"
proof -
  have "step_members e \<noteq> []" by (simp add: step_members_def)
  then show ?thesis
    using handle_frame_literal_dict [of "step_members e" w]
          step_members_verbatim [OF assms(1)] step_members_nonblank [OF assms(2)]
    by (simp add: literal_event_def to_step_step_members)
qed

subsection \<open>The brace-counted extractor\<close>

lemma scan_braces_append:
  "scan_braces cs i b = Some j \<Longrightarrow> scan_braces (cs @ ds) i b = Some j"
  by (induction cs i b rule: scan_braces.induct) (auto split: if_splits)

lemma find_json_end_append:
  "find_json_end r = Some j \<Longrightarrow> find_json_end (r @ ds) = Some j"
  by (simp add: find_json_end_def scan_braces_append)

lemma extract_frames_Nil: "extract_frames [] = ([], [])"
  by (simp add: extract_frames.simps)

lemma extract_frames_None:
  "find_json_end r = None \<Longrightarrow> extract_frames r = ([], r)"
  by (simp add: extract_frames.simps)

lemma extract_frames_Some:
  assumes "find_json_end r = Some j"
  shows "extract_frames r =
           (take (j + 1) r # fst (extract_frames (drop (j + 1) r)),
            snd (extract_frames (drop (j + 1) r)))"
proof -
  have "r \<noteq> []" using find_json_end_less [OF assms] by auto
  then show ?thesis using assms by (subst extract_frames.simps) (simp add: Let_def)
qed

lemma extract_frames_append:
  "extract_frames (r @ chunk) =
     (fst (extract_frames r) @ fst (extract_frames (snd (extract_frames r) @ chunk)),
      snd (extract_frames (snd (extract_frames r) @ chunk)))"
proof (induction r rule: extract_frames.induct)
  case (1 remaining)
  show ?case
  proof (cases "find_json_end remaining")
    case None
    then show ?thesis by (simp add: extract_frames_None)
  next
    case (Some j)
    have j: "j < length remaining" using Some by (rule find_json_end_less)
    then have ne: "remaining \<noteq> []" by auto
    have app: "find_json_end (remaining @ chunk) = Some j"
      using Some by (rule find_json_end_append)
    note IH = "1.IH" [OF ne Some refl]
    have L: "extract_frames (remaining @ chunk) =
        (take (j + 1) remaining # fst (extract_frames (drop (j + 1) remaining @ chunk)),
         snd (extract_frames (drop (j + 1) remaining @ chunk)))"
      using extract_frames_Some [OF app] j by simp
    show ?thesis
      by (simp only: L extract_frames_Some [OF Some] IH fst_conv snd_conv append_Cons)
  qed
qed

lemma extract_frames_retained:
  "extract_frames (snd (extract_frames r)) = ([], snd (extract_frames r))"
proof (induction r rule: extract_frames.induct)
  case (1 remaining)
  show ?case
  proof (cases "find_json_end remaining")
    case None
    then show ?thesis by (simp add: extract_frames_None)
  next
    case (Some j)
    have "remaining \<noteq> []" using find_json_end_less [OF Some] by auto
    from "1.IH" [OF this Some refl] show ?thesis
      by (simp only: extract_frames_Some [OF Some] snd_conv)
  qed
qed

lemma feed_chunks_retained:
  "feed_chunks (snd (extract_frames b)) chunks =
     extract_frames (snd (extract_frames b) @ concat chunks)"
proof (induction chunks arbitrary: b)
  case Nil
  show ?case by (simp add: extract_frames_retained)
next
  case (Cons c cs)
  have "extract_frames ((snd (extract_frames b) @ c) @ concat cs) =
     (fst (extract_frames (snd (extract_frames b) @ c)) @
        fst (extract_frames (snd (extract_frames (snd (extract_frames b) @ c)) @ concat cs)),
      snd (extract_frames (snd (extract_frames (snd (extract_frames b) @ c)) @ concat cs)))"
    by (rule extract_frames_append)
  then show ?case
    using Cons.IH [of "snd (extract_frames b) @ c"]
    by (simp add: extract_step_def Let_def)
qed

lemma feed_chunks_concat: "feed_chunks [] chunks = extract_step [] (concat chunks)"
  using feed_chunks_retained [of "[]" chunks]
  by (simp add: extract_frames_Nil extract_step_def)

text \<open>The source loop handles exactly the frames the extractor cuts out.\<close>

lemma process_remaining_frames:
  "fst (process_remaining w r) = fst (handle_frames w (fst (extract_frames r)))
   \<and> snd (snd (process_remaining w r)) = snd (handle_frames w (fst (extract_frames r)))
   \<and> (\<not> snd (snd (process_remaining w r)) \<longrightarrow>
        fst (snd (process_remaining w r)) = snd (extract_frames r))"
proof (induction w r rule: process_remaining.induct)
  case (1 w remaining)
  show ?case
  proof (cases "find_json_end remaining")
    case None
    then show ?thesis
      by (simp add: extract_frames_None process_remaining.simps [of w remaining])
  next
    case (Some j)
    have ne: "remaining \<noteq> []" using find_json_end_less [OF Some] by auto
    obtain w' ret where h: "handle_frame w (take (j + 1) remaining) = (w', ret)"
      by (cases "handle_frame w (take (j + 1) remaining)")
    show ?thesis
    proof (cases ret)
      case True
      with h Some ne show ?thesis
        by (simp add: extract_frames_Some [OF Some] process_remaining.simps [of w remaining])
    next
      case False
      have IH: "fst (process_remaining w' (drop (j + 1) remaining)) =
            fst (handle_frames w' (fst (extract_frames (drop (j + 1) remaining))))
          \<and> snd (snd (process_remaining w' (drop (j + 1) remaining))) =
            snd (handle_frames w' (fst (extract_frames (drop (j + 1) remaining))))
          \<and> (\<not> snd (snd (process_remaining w' (drop (j + 1) remaining))) \<longrightarrow>
            fst (snd (process_remaining w' (drop (j + 1) remaining))) =
              snd (extract_frames (drop (j + 1) remaining)))"
        using "1.IH" [OF ne Some refl refl _ refl, of w'] h False by simp
      from False h Some ne IH show ?thesis
        by (simp add: extract_frames_Some [OF Some] process_remaining.simps [of w remaining])
    qed
  qed
qed

lemma handle_frames_append:
  "handle_frames w (fs @ gs) =
     (if snd (handle_frames w fs) then handle_frames w fs
      else handle_frames (fst (handle_frames w fs)) gs)"
  by (induction fs arbitrary: w) (auto split: prod.splits bool.splits)

lemma read_step_frames:
  "env_of (read_step w b (ReadValue c)) = fst (handle_frames w (fst (extract_step b c)))"
  "read_step w b (ReadValue c) =
     (if snd (handle_frames w (fst (extract_step b c)))
      then Settled (fst (handle_frames w (fst (extract_step b c))))
      else Reading (fst (handle_frames w (fst (extract_step b c)))) (snd (extract_step b c)))"
  using process_remaining_frames [of w "b @ c"]
  by (auto simp: read_step_def extract_step_def split: prod.splits bool.splits)

lemma read_loop_frames:
  "env_of (read_loop (Reading w b) (map ReadValue chunks)) =
     fst (handle_frames w (fst (feed_chunks b chunks)))"
proof (induction chunks arbitrary: w b)
  case Nil
  show ?case by simp
next
  case (Cons c cs)
  show ?case
  proof (cases "snd (handle_frames w (fst (extract_step b c)))")
    case True
    then show ?thesis
      by (simp add: read_step_frames(2) Let_def handle_frames_append)
  next
    case False
    then show ?thesis
      using Cons.IH [of "fst (handle_frames w (fst (extract_step b c)))" "snd (extract_step b c)"]
      by (simp add: read_step_frames(2) Let_def handle_frames_append)
  qed
qed

subsection \<open>The hook\<close>

lemma invoke_fields:
  "messages (invoke b ev st) = messages st"
  "loading (invoke b ev st) = loading st"
  "api_console (invoke b ev st) = api_console st"
  "requestIdRef (invoke b ev st) = requestIdRef st"
  "requests (invoke b ev st) = requests st"
  "uuid_count (invoke b ev st) = uuid_count st"
  "callback_log (invoke b ev st) = callback_log st @ (if b then [ev] else [])"
  by (simp_all add: invoke_def)

lemma process_line_unparsable:
  "trim line \<noteq> [] \<Longrightarrow> JSON_parse line = None \<Longrightarrow>
     process_line ctx cbs st line = console_error (ErrorParsingStreamLine line) st"
  by (simp add: process_line_def)

lemma process_line_heartbeat:
  assumes "JSON_parse line = Some data"
    and "get_prop data (str ''response'') = Inr response"
    and "\<not> truthy response"
  shows "process_line ctx cbs st line =
           (case get_prop data (str ''node'') of
              Inr (Some n) \<Rightarrow> invoke (truthy (Some n) \<and> has_onNodeHighlight cbs) (OnNodeHighlight n) st
            | _ \<Rightarrow> st)"
proof -
  have "trim line \<noteq> []" using assms(1) by (rule JSON_parse_Some_nonblank)
  moreover have "\<not> truthy (Some (or_empty response))"
    using assms(3) by (cases response) (simp_all add: or_empty_def)
  ultimately show ?thesis
    using assms(1,2)
    by (simp add: process_line_def Let_def split: sum.splits option.splits)
qed

subsection \<open>The retry executor\<close>

lemma withRetry_from_success:
  "operation i = Inr v \<Longrightarrow> withRetry_from operation n base i obs = (Inr v, obs)"
  by (simp add: withRetry_from.simps)

lemma withRetry_from_retry:
  "operation i = Inl e \<Longrightarrow> i + 1 < n \<Longrightarrow>
   withRetry_from operation n base i obs =
     withRetry_from operation n base (i + 1) (obs @ [(i + 1, e, base * 2 ^ i)])"
  by (subst withRetry_from.simps) simp

lemma withRetry_from_exhausted:
  "operation i = Inl e \<Longrightarrow> \<not> i + 1 < n \<Longrightarrow>
   withRetry_from operation n base i obs = (Inl e, obs)"
  by (subst withRetry_from.simps) simp

lemma withRetry_from_all_fail:
  assumes "\<And>k. k < n \<Longrightarrow> operation k = Inl (err k)" and "i < n"
  shows "withRetry_from operation n base i obs =
           (Inl (err (n - 1)), obs @ map (\<lambda>k. (k + 1, err k, base * 2 ^ k)) [i..<n - 1])"
  using assms(2)
proof (induction "n - i" arbitrary: i obs)
  case 0
  then show ?case by simp
next
  case (Suc d)
  show ?case
  proof (cases "i + 1 < n")
    case True
    have "withRetry_from operation n base i obs =
            withRetry_from operation n base (i + 1) (obs @ [(i + 1, err i, base * 2 ^ i)])"
      using withRetry_from_retry [of operation i "err i" n base obs] assms(1) [OF Suc.prems] True
      by simp
    also have "\<dots> = (Inl (err (n - 1)),
        (obs @ [(i + 1, err i, base * 2 ^ i)]) @
          map (\<lambda>k. (k + 1, err k, base * 2 ^ k)) [i + 1..<n - 1])"
      using Suc.hyps(1) [of "i + 1"] Suc.hyps(2) True by simp
    finally have st: "withRetry_from operation n base i obs = (Inl (err (n - 1)),
        (obs @ [(i + 1, err i, base * 2 ^ i)]) @
          map (\<lambda>k. (k + 1, err k, base * 2 ^ k)) [i + 1..<n - 1])" .
    have "[i..<n - 1] = i # [i + 1..<n - 1]"
      using True by (simp add: upt_conv_Cons)
    with st show ?thesis by simp
  next
    case False
    then have "i = n - 1" using Suc.prems by simp
    then show ?thesis
      using withRetry_from_exhausted [of operation i "err i" n base obs]
            assms(1) [OF Suc.prems] False
      by simp
  qed
qed

subsection \<open>Sample data\<close>

lemma sublist_eval:
  "sublist (x # xs) (y # ys) = (prefix (x # xs) (y # ys) \<or> sublist (x # xs) ys)"
  by (simp add: sublist_Cons_right)

lemma sample_steps_verbatim:
  "verbatim_step delivered_step" "nonblank_step delivered_step"
  "verbatim_step in_transit_step" "nonblank_step in_transit_step"
  by (simp_all add: delivered_step_def in_transit_step_def sample_step_def verbatim_step_def
        nonblank_step_def verbatim_def plain_chars_def DELIVERED_def str_def trim_def
        is_js_space_def sublist_eval)

lemma streaming_init_store:
  "store streaming_init = setStreaming True initialState" "console streaming_init = []"
  by (simp_all add: streaming_init_def startStreaming_begin_def on_store_def group_init_def
        reset_def)

lemma feed_two_frames:
  "feed_chunks [] [delivered_frame, in_transit_frame] = ([delivered_frame, in_transit_frame], [])"
  by code_simp

lemma feed_one_frame:
  "feed_chunks [] [delivered_frame] = ([delivered_frame], [])"
  by code_simp

lemma handle_sample_frames:
  "handle_frame w delivered_frame = (on_store (addEvent delivered_step) w, False)"
  "handle_frame w in_transit_frame = (on_store (addEvent in_transit_step) w, False)"
  unfolding delivered_frame_def in_transit_frame_def
  by (simp_all add: handle_frame_literal_event sample_steps_verbatim)

lemma process_remaining_first:
  assumes "find_json_end remaining = Some j"
  shows "process_remaining w remaining =
           (case handle_frame w (take (j + 1) remaining) of
              (w', True) \<Rightarrow> (w', drop (j + 1) remaining, True)
            | (w', False) \<Rightarrow> process_remaining w' (drop (j + 1) remaining))"
proof -
  have "remaining \<noteq> []" using find_json_end_less [OF assms] by auto
  then show ?thesis using assms by (subst process_remaining.simps) (simp add: Let_def)
qed

lemma done_frame_facts:
  "JSON_parse done_frame = Some (JObject [(str ''response'', JString (str ''All orders delivered.''))])"
  "find_json_end (done_frame @ in_transit_frame) = Some (length done_frame - 1)"
  "take (length done_frame - 1 + 1) (done_frame @ in_transit_frame) = done_frame"
  "drop (length done_frame - 1 + 1) (done_frame @ in_transit_frame) = in_transit_frame"
proof -
  show "JSON_parse done_frame = Some (JObject [(str ''response'', JString (str ''All orders delivered.''))])"
    unfolding done_frame_def by (rule JSON_parse_frame_text) (simp add: json_plain_def str_def)
  show "find_json_end (done_frame @ in_transit_frame) = Some (length done_frame - 1)"
    by code_simp
  have "0 < length done_frame" by (simp add: done_frame_def frame_text_def str_def)
  then show "take (length done_frame - 1 + 1) (done_frame @ in_transit_frame) = done_frame"
    "drop (length done_frame - 1 + 1) (done_frame @ in_transit_frame) = in_transit_frame"
    by simp_all
qed






lemma fragments_facts:
  "feed_chunks [] [fragment1, fragment2, fragment3] = ([fragment1 @ fragment2 @ fragment3], [])"
  "extract_step [] (fragment1 @ fragment2 @ fragment3) = ([fragment1 @ fragment2 @ fragment3], [])"
  "JSON_parse (fragment1 @ fragment2 @ fragment3)
     = Some (JObject [(str ''response'', JString fragments_literal)])"
  "startsWith fragments_literal SENTINEL_SINGLE"
  "JSON_parse (normalize fragments_literal) = Some (dict_object (step_members delivered_step))"
  by code_simp+

lemma handle_fragments:
  "handle_frame w (fragment1 @ fragment2 @ fragment3) = (on_store (addEvent delivered_step) w, False)"
proof -
  have g: "get_prop (JObject [(str ''response'', JString fragments_literal)]) (str ''response'')
             = Inr (Some (JString fragments_literal))"
    by (simp add: str_def)
  show ?thesis
    using handle_frame_event [OF fragments_facts(3) g _ fragments_facts(5)
            step_members_valid [OF sample_steps_verbatim(2)], of w]
          fragments_facts(4)
    by (simp add: to_step_step_members)
qed

lemma read_loop_Nil: "read_loop p [] = p"
  by (cases p) simp_all

lemmas api_defs =
  first_call_def first_stream_def cancelled_api_def sendMessageWithCallback_begin_def
  stream_begin_def cancel_def uuid_def invoke_def api_init_def all_callbacks_def Let_def

lemma first_stream_facts:
  "myRequestId (fst first_stream) = 1"
  "requestIdRef (snd first_stream) = 1"
  "requestIdRef cancelled_api = 2"
  "activeAssistantMessageId (fst first_stream) = Uuid 2"
  "callback_log (snd first_stream) = [OnStart]"
  "loading cancelled_api = False"
  "aborted cancelled_api = [1]"
  by (simp_all add: api_defs)

lemma line_facts:
  "JSON_parse token_line = Some (JObject [(str ''response'', JString (str ''Hel''))])"
  "JSON_parse heartbeat_line
     = Some (JObject [(str ''node'', JString (str ''mapper'')), (str ''status'', JString (str ''running''))])"
  "JSON_parse noise_line = None"
  "JSON_parse blank_line = None"
  "JSON_parse empty_node_line
     = Some (JObject [(str ''node'', JString []), (str ''status'', JString (str ''running''))])"
  "split_lines (noise_line @ [10] @ heartbeat_line @ [10] @ token_line @ [10] @ take 9 token_line)
     = [noise_line, heartbeat_line, token_line, take 9 token_line]"
  by code_simp+

lemma line_trims:
  "trim noise_line \<noteq> []" "trim blank_line = []"
  by (simp_all add: noise_line_def blank_line_def trim_def is_js_space_def str_def)

section \<open>Claims\<close>

subsection \<open>Request generations\<close>




subsection \<open>Framing\<close>

text \<open>
  C2. Chunk-boundary invariance of the brace-counted extractor, for every text and every
  partition of it into chunks: feeding the chunks one at a time from an empty buffer,
  threading the retained buffer, emits the same frames in the same order, and retains
  the same buffer, as feeding the whole text as one chunk. The step is the function
  \<open>extract_step\<close> of the old buffer and the chunk; the loop of the source handles
  exactly the frames it emits, so the store after reading chunk by chunk is the store
  after reading the whole text at once.
\<close>

theorem chunk_boundary_invariance:
  "feed_chunks [] chunks = extract_step [] (concat chunks)
   \<and> fst (process_remaining w r) = fst (handle_frames w (fst (extract_frames r)))
   \<and> env_of (read_loop (Reading w []) (map ReadValue chunks)) =
       env_of (read_loop (Reading w []) [ReadValue (concat chunks)])"
proof -
  have "env_of (read_loop (Reading w []) [ReadValue (concat chunks)]) =
          fst (handle_frames w (fst (feed_chunks [] [concat chunks])))"
    using read_loop_frames [of w "[]" "[concat chunks]"] by simp
  also have "feed_chunks [] [concat chunks] = extract_step [] (concat chunks)"
    using feed_chunks_concat [of "[concat chunks]"] by simp
  finally show ?thesis
    using read_loop_frames [of w "[]" chunks] process_remaining_frames [of w r]
    by (simp add: feed_chunks_concat)
qed

theorem chunk_boundary_invariance_witness:
  "feed_chunks [] [fragment1, fragment2, fragment3] = ([fragment1 @ fragment2 @ fragment3], [])
   \<and> env_of (read_loop (Reading streaming_init []) [ReadValue fragment1, ReadValue fragment2,
          ReadValue fragment3])
       = on_store (addEvent delivered_step) streaming_init
   \<and> env_of (read_loop (Reading streaming_init []) [ReadValue (fragment1 @ fragment2 @ fragment3)])
       = on_store (addEvent delivered_step) streaming_init
   \<and> events (store (on_store (addEvent delivered_step) streaming_init)) = [delivered_step]
   \<and> isComplete (store (on_store (addEvent delivered_step) streaming_init))"
proof -
  have whole: "env_of (read_loop (Reading streaming_init [])
                 [ReadValue (fragment1 @ fragment2 @ fragment3)])
               = on_store (addEvent delivered_step) streaming_init"
    using read_step_frames(1) [of streaming_init "[]" "fragment1 @ fragment2 @ fragment3"]
    by (simp add: fragments_facts(2) handle_fragments read_loop_Nil)
  have d: "state delivered_step = DELIVERED"
    by (simp add: delivered_step_def sample_step_def)
  show ?thesis
    using chunk_boundary_invariance [of "[fragment1, fragment2, fragment3]" streaming_init]
          whole fragments_facts(2)
    by (simp add: on_store_def addEvent_def streaming_init_store setStreaming_def
          initialState_def d del: read_loop.simps feed_chunks.simps)
qed

subsection \<open>The session state machine\<close>

text \<open>
  C3. In a streaming session (\<open>isStreaming\<close> set, \<open>isComplete\<close> clear) \<open>addEvent\<close>
  appends the event to the log and makes its order id the current one; the session
  becomes complete (\<open>isComplete\<close> set, \<open>isStreaming\<close> clear) exactly when the event's
  state is \<open>DELIVERED\<close>, and stays streaming otherwise. The other fields are untouched.
\<close>

theorem addEvent_while_streaming:
  assumes "isStreaming st" and "\<not> isComplete st"
  shows "events (addEvent e st) = events st @ [e]
         \<and> currentOrderId (addEvent e st) = Some (order_id e)
         \<and> ((isComplete (addEvent e st) \<and> \<not> isStreaming (addEvent e st)) = (state e = DELIVERED))
         \<and> ((isStreaming (addEvent e st) \<and> \<not> isComplete (addEvent e st)) = (state e \<noteq> DELIVERED))
         \<and> finalResponse (addEvent e st) = finalResponse st
         \<and> error (addEvent e st) = error st
         \<and> executionKey (addEvent e st) = executionKey st"
  using assms by (simp add: addEvent_def)

theorem addEvent_while_streaming_witness:
  "isStreaming (setStreaming True initialState)
   \<and> \<not> isComplete (setStreaming True initialState)
   \<and> events (addEvent (sample_step (str ''1'') DELIVERED) (setStreaming True initialState))
       = [sample_step (str ''1'') DELIVERED]
   \<and> isComplete (addEvent (sample_step (str ''1'') DELIVERED) (setStreaming True initialState))
   \<and> \<not> isStreaming (addEvent (sample_step (str ''1'') DELIVERED) (setStreaming True initialState))
   \<and> isStreaming (addEvent (sample_step (str ''1'') (str ''IN_TRANSIT'')) (setStreaming True initialState))
   \<and> \<not> isComplete (addEvent (sample_step (str ''1'') (str ''IN_TRANSIT'')) (setStreaming True initialState))"
proof -
  have s: "isStreaming (setStreaming True initialState)"
    and c: "\<not> isComplete (setStreaming True initialState)"
    by (simp_all add: setStreaming_def initialState_def)
  have d: "state (sample_step (str ''1'') DELIVERED) = DELIVERED"
    and t: "state (sample_step (str ''1'') (str ''IN_TRANSIT'')) \<noteq> DELIVERED"
    by (simp_all add: sample_step_def DELIVERED_def str_def)
  show ?thesis
    using addEvent_while_streaming [OF s c, of "sample_step (str ''1'') DELIVERED"]
          addEvent_while_streaming [OF s c, of "sample_step (str ''1'') (str ''IN_TRANSIT'')"]
          s c d t
    by (simp add: setStreaming_def initialState_def)
qed

text \<open>
  C4 (as amended). The transitions of the store are unguarded: in every state, whatever
  its status, \<open>addEvent\<close> appends the event and makes its order id the current one; the
  flags change only for a \<open>DELIVERED\<close> event. The stream loop hands every valid
  domain-event frame to \<open>addEvent\<close> without looking at the status, so an event that
  arrives after completion is appended as well.
\<close>

theorem addEvent_unguarded:
  "events (addEvent e st) = events st @ [e]
   \<and> currentOrderId (addEvent e st) = Some (order_id e)
   \<and> isComplete (addEvent e st) = (state e = DELIVERED \<or> isComplete st)
   \<and> isStreaming (addEvent e st) = (state e \<noteq> DELIVERED \<and> isStreaming st)
   \<and> finalResponse (addEvent e st) = finalResponse st
   \<and> error (addEvent e st) = error st
   \<and> (verbatim_step e \<and> nonblank_step e \<longrightarrow>
        handle_frame w (frame_text (literal_event e)) = (on_store (addEvent e) w, False)
        \<and> events (store (fst (handle_frame w (frame_text (literal_event e)))))
            = events (store w) @ [e])"
  by (simp add: addEvent_def handle_frame_literal_event on_store_def)

theorem addEvent_unguarded_witness:
  "verbatim_step in_transit_step \<and> nonblank_step in_transit_step
   \<and> isComplete (setFinalResponse (str ''done'') initialState)
   \<and> events (addEvent in_transit_step (setFinalResponse (str ''done'') initialState))
        = [in_transit_step]
   \<and> events (store (fst (handle_frame
          (on_store (setFinalResponse (str ''done'')) group_init) in_transit_frame)))
        = [in_transit_step]"
  using addEvent_unguarded [of in_transit_step "setFinalResponse (str ''done'') initialState"
          "on_store (setFinalResponse (str ''done'')) group_init"]
        sample_steps_verbatim
  by (simp add: setFinalResponse_def initialState_def group_init_def on_store_def
        in_transit_frame_def)

text \<open>
  The claim fails: after a \<open>DELIVERED\<close> event has completed the session, the next
  frame of the same stream is still appended to the log; and \<open>addEvent\<close> on the idle
  initial state appends, too.
\<close>

theorem event_after_completion_counterexample:
  "isComplete (store (env_of (read_loop (Reading streaming_init []) [ReadValue delivered_frame])))
   \<and> \<not> isStreaming (store (env_of (read_loop (Reading streaming_init []) [ReadValue delivered_frame])))
   \<and> events (store (env_of (read_loop (Reading streaming_init []) [ReadValue delivered_frame])))
        = [delivered_step]
   \<and> events (store (env_of (read_loop (Reading streaming_init [])
          [ReadValue delivered_frame, ReadValue in_transit_frame])))
        = [delivered_step, in_transit_step]
   \<and> \<not> isStreaming initialState
   \<and> events (addEvent in_transit_step initialState) \<noteq> events initialState"
proof -
  have one: "env_of (read_loop (Reading streaming_init []) [ReadValue delivered_frame]) =
               on_store (addEvent delivered_step) streaming_init"
    using read_loop_frames [of streaming_init "[]" "[delivered_frame]"]
    by (simp add: feed_one_frame handle_sample_frames del: feed_chunks.simps)
  have two: "env_of (read_loop (Reading streaming_init [])
               [ReadValue delivered_frame, ReadValue in_transit_frame]) =
             on_store (addEvent in_transit_step) (on_store (addEvent delivered_step) streaming_init)"
    using read_loop_frames [of streaming_init "[]" "[delivered_frame, in_transit_frame]"]
    by (simp add: feed_two_frames handle_sample_frames del: feed_chunks.simps)
  have d: "state delivered_step = DELIVERED"
    by (simp add: delivered_step_def sample_step_def)
  show ?thesis
    unfolding one two
    by (simp add: on_store_def streaming_init_store addEvent_def setStreaming_def
          initialState_def d)
qed

text \<open>
  C9. \<open>reset()\<close> from a terminal state (in fact from every state) gives the initial
  state: the event log is empty, \<open>finalResponse\<close>, \<open>error\<close> and \<open>currentOrderId\<close> are
  cleared, and both flags are false.
\<close>

theorem reset_restores_initialState:
  "reset st = initialState
   \<and> events (reset st) = []
   \<and> finalResponse (reset st) = None
   \<and> error (reset st) = None
   \<and> currentOrderId (reset st) = None
   \<and> isStreaming (reset st) = False
   \<and> isComplete (reset st) = False"
  by (simp add: reset_def initialState_def)

theorem reset_restores_initialState_witness:
  "reset (setFinalResponse (str ''done'') (setStreaming True initialState)) = initialState
   \<and> reset (setError (str ''HTTP 500: '') (setStreaming True initialState)) = initialState
   \<and> setFinalResponse (str ''done'') (setStreaming True initialState) \<noteq> initialState
   \<and> setError (str ''HTTP 500: '') (setStreaming True initialState) \<noteq> initialState"
  using reset_restores_initialState
          [of "setFinalResponse (str ''done'') (setStreaming True initialState)"]
        reset_restores_initialState
          [of "setError (str ''HTTP 500: '') (setStreaming True initialState)"]
  by (simp add: setFinalResponse_def setError_def setStreaming_def initialState_def str_def)

text \<open>
  C6 (as amended). When a parsed frame carries a non-empty string \<open>response\<close> that
  begins with neither \<open>{'\<close> nor \<open>{"\<close>, the store's \<open>finalResponse\<close> becomes that text,
  the session is complete (\<open>isComplete\<close> set, \<open>isStreaming\<close> clear), the log is
  untouched, and \<open>startStreaming\<close> returns: no later frame of the chunk and no later
  read is handled.
\<close>

theorem final_response_terminates:
  "JSON_parse f = Some parsed \<and> get_prop parsed (str ''response'') = Inr (Some (JString r))
   \<and> r \<noteq> [] \<and> \<not> startsWith r SENTINEL_SINGLE \<and> \<not> startsWith r SENTINEL_DOUBLE \<longrightarrow>
     handle_frame w f = (on_store (setFinalResponse r) w, True)
     \<and> finalResponse (store (fst (handle_frame w f))) = Some r
     \<and> isComplete (store (fst (handle_frame w f)))
     \<and> \<not> isStreaming (store (fst (handle_frame w f)))
     \<and> events (store (fst (handle_frame w f))) = events (store w)
     \<and> handle_frames w (f # later) = (on_store (setFinalResponse r) w, True)
     \<and> (find_json_end remaining = Some j \<and> take (j + 1) remaining = f \<longrightarrow>
          process_remaining w remaining =
            (on_store (setFinalResponse r) w, drop (j + 1) remaining, True)
          \<and> (buffer @ chunk = remaining \<longrightarrow>
               read_loop (Reading w buffer) (ReadValue chunk # reads) =
                 Settled (on_store (setFinalResponse r) w)))"
proof (intro impI)
  assume a: "JSON_parse f = Some parsed \<and> get_prop parsed (str ''response'') = Inr (Some (JString r))
   \<and> r \<noteq> [] \<and> \<not> startsWith r SENTINEL_SINGLE \<and> \<not> startsWith r SENTINEL_DOUBLE"
  then have h: "handle_frame w f = (on_store (setFinalResponse r) w, True)"
    by (intro handle_frame_final) auto
  have p: "process_remaining w remaining =
            (on_store (setFinalResponse r) w, drop (j + 1) remaining, True)"
    if "find_json_end remaining = Some j" "take (j + 1) remaining = f" for remaining j
    using process_remaining_first [OF that(1), of w] that(2) h by simp
  show "handle_frame w f = (on_store (setFinalResponse r) w, True)
     \<and> finalResponse (store (fst (handle_frame w f))) = Some r
     \<and> isComplete (store (fst (handle_frame w f)))
     \<and> \<not> isStreaming (store (fst (handle_frame w f)))
     \<and> events (store (fst (handle_frame w f))) = events (store w)
     \<and> handle_frames w (f # later) = (on_store (setFinalResponse r) w, True)
     \<and> (find_json_end remaining = Some j \<and> take (j + 1) remaining = f \<longrightarrow>
          process_remaining w remaining =
            (on_store (setFinalResponse r) w, drop (j + 1) remaining, True)
          \<and> (buffer @ chunk = remaining \<longrightarrow>
               read_loop (Reading w buffer) (ReadValue chunk # reads) =
                 Settled (on_store (setFinalResponse r) w)))"
    using p [of remaining j]
    by (auto simp: h on_store_def setFinalResponse_def read_step_def)
qed

theorem final_response_terminates_witness:
  "read_loop (Reading streaming_init []) [ReadValue (done_frame @ in_transit_frame), ReadValue delivered_frame]
     = Settled (on_store (setFinalResponse (str ''All orders delivered.'')) streaming_init)
   \<and> process_remaining streaming_init (done_frame @ in_transit_frame)
       = (on_store (setFinalResponse (str ''All orders delivered.'')) streaming_init,
          in_transit_frame, True)
   \<and> events (store (on_store (setFinalResponse (str ''All orders delivered.'')) streaming_init)) = []"
proof -
  let ?r = "str ''All orders delivered.''"
  let ?rem = "done_frame @ in_transit_frame"
  let ?j = "length done_frame - 1"
  have s: "?r \<noteq> []" "\<not> startsWith ?r SENTINEL_SINGLE" "\<not> startsWith ?r SENTINEL_DOUBLE"
    "get_prop (JObject [(str ''response'', JString ?r)]) (str ''response'') = Inr (Some (JString ?r))"
    by (simp_all add: str_def startsWith_def SENTINEL_SINGLE_def SENTINEL_DOUBLE_def)
  have pre: "JSON_parse done_frame = Some (JObject [(str ''response'', JString ?r)])
     \<and> get_prop (JObject [(str ''response'', JString ?r)]) (str ''response'') = Inr (Some (JString ?r))
     \<and> ?r \<noteq> [] \<and> \<not> startsWith ?r SENTINEL_SINGLE \<and> \<not> startsWith ?r SENTINEL_DOUBLE"
    using done_frame_facts(1) s by blast
  note C = final_response_terminates [of done_frame "JObject [(str ''response'', JString ?r)]"
      ?r streaming_init "[]" ?rem ?j "[]" ?rem "[ReadValue delivered_frame]", THEN mp, OF pre]
  have inner: "find_json_end ?rem = Some ?j \<and> take (?j + 1) ?rem = done_frame"
    using done_frame_facts(2,3) by blast
  from C inner have D: "process_remaining streaming_init ?rem =
        (on_store (setFinalResponse ?r) streaming_init, drop (?j + 1) ?rem, True)
      \<and> ([] @ ?rem = ?rem \<longrightarrow>
          read_loop (Reading streaming_init []) (ReadValue ?rem # [ReadValue delivered_frame]) =
            Settled (on_store (setFinalResponse ?r) streaming_init))"
    by blast
  have E: "events (store (on_store (setFinalResponse ?r) streaming_init)) = []"
    by (simp add: on_store_def streaming_init_store setFinalResponse_def setStreaming_def
          initialState_def)
  from D E show ?thesis by (simp only: done_frame_facts(4) append_Nil simp_thms)
qed

text \<open>
  The claim fails for the empty string, a string \<open>response\<close> that begins with neither
  sentinel: the frame \<open>{"response": ""}\<close> is skipped by the truthiness guard, no final
  response is set, and the frame after it is handled.
\<close>

theorem empty_response_counterexample:
  "JSON_parse empty_response_frame = Some (JObject [(str ''response'', JString [])])
   \<and> \<not> startsWith [] SENTINEL_SINGLE \<and> \<not> startsWith [] SENTINEL_DOUBLE
   \<and> handle_frame streaming_init empty_response_frame = (streaming_init, False)
   \<and> finalResponse (store (fst (handle_frame streaming_init empty_response_frame))) = None
   \<and> \<not> isComplete (store (fst (handle_frame streaming_init empty_response_frame)))
   \<and> handle_frames streaming_init [empty_response_frame, in_transit_frame]
       = (on_store (addEvent in_transit_step) streaming_init, False)"
proof -
  have p: "JSON_parse empty_response_frame = Some (JObject [(str ''response'', JString [])])"
    unfolding empty_response_frame_def by (rule JSON_parse_frame_text) (simp add: json_plain_def)
  have h: "handle_frame streaming_init empty_response_frame = (streaming_init, False)"
    by (simp add: handle_frame_def p)
  show ?thesis
    by (simp add: p h handle_sample_frames startsWith_def SENTINEL_SINGLE_def
          SENTINEL_DOUBLE_def streaming_init_store setStreaming_def initialState_def)
qed

subsection \<open>The quasi-JSON normalizer\<close>




subsection \<open>The retry executor\<close>

text \<open>
  C7. With three attempts allowed and an operation that fails twice and then succeeds,
  \<open>onRetry\<close> is invoked exactly twice, with the delays \<open>base * 2 ^ 0\<close> and
  \<open>base * 2 ^ 1\<close>, which are non-decreasing, and the result is the operation's value.
  When all \<open>maxAttempts\<close> attempts fail, the failure of the last attempt is the result.
\<close>

theorem withRetry_behaviour:
  "(operation 0 = Inl e0 \<and> operation 1 = Inl e1 \<and> operation 2 = Inr v \<longrightarrow>
      withRetry operation 3 base = (Inr v, [(1, e0, base * 2 ^ 0), (2, e1, base * 2 ^ 1)])
      \<and> length (snd (withRetry operation 3 base)) = 2
      \<and> sorted (map (\<lambda>(attempt, e, delay). delay) (snd (withRetry operation 3 base))))
   \<and> (0 < maxAttempts \<and> (\<forall>k < maxAttempts. operation k = Inl (err k)) \<longrightarrow>
      fst (withRetry operation maxAttempts base) = Inl (err (maxAttempts - 1))
      \<and> length (snd (withRetry operation maxAttempts base)) = maxAttempts - 1)"
proof (intro conjI impI)
  assume a: "operation 0 = Inl e0 \<and> operation 1 = Inl e1 \<and> operation 2 = Inr v"
  have r: "withRetry operation 3 base = (Inr v, [(1, e0, base * 2 ^ 0), (2, e1, base * 2 ^ 1)])"
    using a withRetry_from_retry [of operation 0 e0 3 base "[]"]
          withRetry_from_retry [of operation 1 e1 3 base "[(1, e0, base * 2 ^ 0)]"]
          withRetry_from_success [of operation 2 v 3 base]
    by (simp add: withRetry_def numeral_2_eq_2)
  show "withRetry operation 3 base = (Inr v, [(1, e0, base * 2 ^ 0), (2, e1, base * 2 ^ 1)])"
    by (rule r)
  show "length (snd (withRetry operation 3 base)) = 2" by (simp add: r)
  show "sorted (map (\<lambda>(attempt, e, delay). delay) (snd (withRetry operation 3 base)))"
    by (simp add: r)
next
  assume a: "0 < maxAttempts \<and> (\<forall>k < maxAttempts. operation k = Inl (err k))"
  then have r: "withRetry operation maxAttempts base =
      (Inl (err (maxAttempts - 1)),
       [] @ map (\<lambda>k. (k + 1, err k, base * 2 ^ k)) [0..<maxAttempts - 1])"
    unfolding withRetry_def by (intro withRetry_from_all_fail) auto
  show "fst (withRetry operation maxAttempts base) = Inl (err (maxAttempts - 1))"
    by (simp add: r)
  show "length (snd (withRetry operation maxAttempts base)) = maxAttempts - 1"
    by (simp add: r)
qed

theorem withRetry_behaviour_witness:
  "withRetry flaky 3 500 = (Inr (str ''pong''), [(1, str ''timeout'', 500), (2, str ''reset'', 1000)])
   \<and> withRetry failing 3 500 =
       (Inl (str ''down2''), [(1, str ''down0'', 500), (2, str ''down1'', 1000)])"
proof -
  have f: "flaky 0 = Inl (str ''timeout'') \<and> flaky 1 = Inl (str ''reset'') \<and> flaky 2 = Inr (str ''pong'')"
    by (simp add: flaky_def)
  have g: "0 < (3::nat) \<and> (\<forall>k<3. failing k = Inl (str ''down'' @ [48 + k]))"
    by (simp add: failing_def)
  have w: "withRetry failing 3 500 =
       (Inl (str ''down2''), [(1, str ''down0'', 500), (2, str ''down1'', 1000)])"
    using withRetry_from_retry [of failing 0 "str ''down0''" 3 500 "[]"]
          withRetry_from_retry [of failing 1 "str ''down1''" 3 500 "[(1, str ''down0'', 500)]"]
          withRetry_from_exhausted [of failing 2 "str ''down2''" 3 500]
    by (simp add: withRetry_def failing_def str_def numeral_2_eq_2)
  show ?thesis
    using withRetry_behaviour [of flaky "str ''timeout''" "str ''reset''" "str ''pong''" 500
              3 "\<lambda>k. str ''down'' @ [48 + k]"] f g w
    by simp
qed

subsection \<open>Line framing\<close>

text \<open>
  C8 (as amended). In the newline-delimited framing, a non-blank line that fails to
  parse is logged and discarded, a blank line is skipped without a log entry, and in
  both cases the remaining lines are processed and the read loop goes on. A line that
  parses and has no truthy \<open>response\<close> leaves the messages unchanged; its \<open>node\<close>
  is passed to \<open>onNodeHighlight\<close> when it is truthy and the caller supplied the
  callback, and no callback is invoked otherwise.
\<close>

theorem line_noise_and_heartbeats:
  "(trim line \<noteq> [] \<and> JSON_parse line = None \<longrightarrow>
      process_line ctx cbs st line = console_error (ErrorParsingStreamLine line) st
      \<and> api_console (process_line ctx cbs st line) = api_console st @ [ErrorParsingStreamLine line]
      \<and> messages (process_line ctx cbs st line) = messages st
      \<and> callback_log (process_line ctx cbs st line) = callback_log st)
   \<and> (trim line = [] \<longrightarrow> process_line ctx cbs st line = st)
   \<and> process_lines ctx cbs st (line # rest) =
       process_lines ctx cbs (process_line ctx cbs st line) rest
   \<and> (requestIdRef st = myRequestId ctx \<longrightarrow>
        stream_read ctx cbs st buffer (ReadValue chunk) =
          Reading (process_lines ctx cbs st (butlast (split_lines (buffer @ chunk))))
                  (last (split_lines (buffer @ chunk))))
   \<and> (JSON_parse line = Some data \<and> get_prop data (str ''response'') = Inr response
        \<and> \<not> truthy response \<longrightarrow>
        messages (process_line ctx cbs st line) = messages st
        \<and> api_console (process_line ctx cbs st line) = api_console st
        \<and> (get_prop data (str ''node'') = Inr (Some n) \<and> truthy (Some n)
             \<and> has_onNodeHighlight cbs \<longrightarrow>
             callback_log (process_line ctx cbs st line) = callback_log st @ [OnNodeHighlight n])
        \<and> (\<not> truthy (case get_prop data (str ''node'') of Inr v \<Rightarrow> v | Inl x \<Rightarrow> None)
             \<or> \<not> has_onNodeHighlight cbs \<longrightarrow>
             callback_log (process_line ctx cbs st line) = callback_log st))"
proof (intro conjI impI)
  assume a: "trim line \<noteq> [] \<and> JSON_parse line = None"
  then have p: "process_line ctx cbs st line = console_error (ErrorParsingStreamLine line) st"
    by (simp add: process_line_unparsable)
  show "process_line ctx cbs st line = console_error (ErrorParsingStreamLine line) st"
    by (rule p)
  show "api_console (process_line ctx cbs st line) = api_console st @ [ErrorParsingStreamLine line]"
    by (simp add: p console_error_def)
  show "messages (process_line ctx cbs st line) = messages st"
    by (simp add: p console_error_def)
  show "callback_log (process_line ctx cbs st line) = callback_log st"
    by (simp add: p console_error_def)
next
  assume "trim line = []"
  then show "process_line ctx cbs st line = st" by (simp add: process_line_def)
next
  show "process_lines ctx cbs st (line # rest) =
          process_lines ctx cbs (process_line ctx cbs st line) rest"
    by simp
next
  assume "requestIdRef st = myRequestId ctx"
  then show "stream_read ctx cbs st buffer (ReadValue chunk) =
          Reading (process_lines ctx cbs st (butlast (split_lines (buffer @ chunk))))
                  (last (split_lines (buffer @ chunk)))"
    by (simp add: stream_read_def Let_def)
next
  assume a: "JSON_parse line = Some data \<and> get_prop data (str ''response'') = Inr response
        \<and> \<not> truthy response"
  then have p: "process_line ctx cbs st line =
           (case get_prop data (str ''node'') of
              Inr (Some n) \<Rightarrow> invoke (truthy (Some n) \<and> has_onNodeHighlight cbs) (OnNodeHighlight n) st
            | _ \<Rightarrow> st)"
    by (intro process_line_heartbeat) auto
  show "messages (process_line ctx cbs st line) = messages st"
    by (simp add: p invoke_fields split: sum.splits option.splits)
  show "api_console (process_line ctx cbs st line) = api_console st"
    by (simp add: p invoke_fields split: sum.splits option.splits)
  {
    assume "get_prop data (str ''node'') = Inr (Some n) \<and> truthy (Some n)
             \<and> has_onNodeHighlight cbs"
    then show "callback_log (process_line ctx cbs st line) = callback_log st @ [OnNodeHighlight n]"
      by (simp add: p invoke_fields)
  }
  {
    assume "\<not> truthy (case get_prop data (str ''node'') of Inr v \<Rightarrow> v | Inl x \<Rightarrow> None)
             \<or> \<not> has_onNodeHighlight cbs"
    then show "callback_log (process_line ctx cbs st line) = callback_log st"
      by (auto simp: p invoke_fields split: sum.splits option.splits)
  }
qed

theorem line_noise_and_heartbeats_witness:
  "trim noise_line \<noteq> [] \<and> JSON_parse noise_line = None
   \<and> api_console (process_line (fst first_stream) all_callbacks (snd first_stream) noise_line)
       = [ErrorParsingStreamLine noise_line]
   \<and> messages (process_line (fst first_stream) all_callbacks (snd first_stream) noise_line)
       = messages (snd first_stream)
   \<and> messages (process_line (fst first_stream) all_callbacks (snd first_stream) heartbeat_line)
       = messages (snd first_stream)
   \<and> callback_log (process_line (fst first_stream) all_callbacks (snd first_stream) heartbeat_line)
       = [OnStart, OnNodeHighlight (JString (str ''mapper''))]
   \<and> stream_read (fst first_stream) all_callbacks (snd first_stream) []
         (ReadValue (noise_line @ [10] @ heartbeat_line @ [10] @ token_line @ [10] @ take 9 token_line))
       = Reading (process_line (fst first_stream) all_callbacks
                   (process_line (fst first_stream) all_callbacks
                     (process_line (fst first_stream) all_callbacks (snd first_stream) noise_line)
                     heartbeat_line)
                   token_line)
                 (take 9 token_line)"
proof -
  let ?ctx = "fst first_stream" and ?st = "snd first_stream"
  let ?hb = "JObject [(str ''node'', JString (str ''mapper'')), (str ''status'', JString (str ''running''))]"
  note T1 = line_noise_and_heartbeats [of noise_line ?ctx all_callbacks ?st "[]" "[]"
      "noise_line @ [10] @ heartbeat_line @ [10] @ token_line @ [10] @ take 9 token_line"]
  note T2 = line_noise_and_heartbeats [of heartbeat_line ?ctx all_callbacks ?st "[]" "[]" "[]"
      ?hb None "JString (str ''mapper'')"]
  have g: "get_prop ?hb (str ''response'') = Inr None"
    "get_prop ?hb (str ''node'') = Inr (Some (JString (str ''mapper'')))"
    "truthy (Some (JString (str ''mapper'')))" "\<not> truthy None" "has_onNodeHighlight all_callbacks"
    by (simp_all add: str_def all_callbacks_def)
  have cur: "requestIdRef ?st = myRequestId ?ctx" by (simp add: first_stream_facts)
  have i: "api_console ?st = []" by (simp add: api_defs)
  from T1 line_trims(1) line_facts(3) have
    a: "api_console (process_line ?ctx all_callbacks ?st noise_line)
          = api_console ?st @ [ErrorParsingStreamLine noise_line]"
    and b: "messages (process_line ?ctx all_callbacks ?st noise_line) = messages ?st"
    by blast+
  from T1 cur have
    r: "stream_read ?ctx all_callbacks ?st []
         (ReadValue (noise_line @ [10] @ heartbeat_line @ [10] @ token_line @ [10] @ take 9 token_line))
       = Reading (process_lines ?ctx all_callbacks ?st (butlast (split_lines ([] @
           (noise_line @ [10] @ heartbeat_line @ [10] @ token_line @ [10] @ take 9 token_line)))))
          (last (split_lines ([] @
           (noise_line @ [10] @ heartbeat_line @ [10] @ token_line @ [10] @ take 9 token_line))))"
    by blast
  from T2 line_facts(2) g have
    c: "messages (process_line ?ctx all_callbacks ?st heartbeat_line) = messages ?st"
    and d: "callback_log (process_line ?ctx all_callbacks ?st heartbeat_line)
          = callback_log ?st @ [OnNodeHighlight (JString (str ''mapper''))]"
    by blast+
  note r' = r [unfolded append_Nil line_facts(6)]
  from a b c d r' line_trims(1) line_facts(3) show ?thesis
    by (simp add: i first_stream_facts(5))
qed

text \<open>
  The claim fails for a blank line, which does not parse as JSON and is dropped without
  being logged, and for a \<open>node\<close> field that is present but empty, which does not
  reach the node-highlight callback.
\<close>

theorem blank_line_counterexample:
  "JSON_parse blank_line = None
   \<and> process_line (fst first_stream) all_callbacks (snd first_stream) blank_line = snd first_stream
   \<and> api_console (process_line (fst first_stream) all_callbacks (snd first_stream) blank_line) = []
   \<and> JSON_parse empty_node_line
       = Some (JObject [(str ''node'', JString []), (str ''status'', JString (str ''running''))])
   \<and> has_onNodeHighlight all_callbacks
   \<and> callback_log (process_line (fst first_stream) all_callbacks (snd first_stream) empty_node_line)
       = callback_log (snd first_stream)"
proof -
  have a: "process_line (fst first_stream) all_callbacks (snd first_stream) blank_line
             = snd first_stream"
    by (simp add: process_line_def line_trims)
  have g: "get_prop (JObject [(str ''node'', JString []), (str ''status'', JString (str ''running''))])
             (str ''response'') = Inr None"
    "get_prop (JObject [(str ''node'', JString []), (str ''status'', JString (str ''running''))])
             (str ''node'') = Inr (Some (JString []))"
    by (simp_all add: str_def)
  have b: "process_line (fst first_stream) all_callbacks (snd first_stream) empty_node_line
             = snd first_stream"
    using process_line_heartbeat [OF line_facts(5) g(1), of "fst first_stream" all_callbacks
            "snd first_stream", unfolded g(2)]
    by (simp add: invoke_def)
  have i: "api_console (snd first_stream) = []" by (simp add: api_defs)
  have h: "has_onNodeHighlight all_callbacks" by (simp add: all_callbacks_def)
  show ?thesis
    by (simp add: a b i h line_facts(4,5))
qed

subsection \<open>\<open>sendMessage\<close>\<close>

text \<open>
  C10. For a prompt that is empty or consists of white space only, \<open>sendMessage\<close>
  throws \<open>Error("Prompt cannot be empty")\<close> and leaves the state as it was: no
  request is issued, \<open>loading\<close> and the generation counter are unchanged.
\<close>

theorem sendMessage_blank_prompt:
  assumes "list_all is_js_space prompt"
  shows "sendMessage_begin prompt st = (Inl (ErrorInstance (str ''Prompt cannot be empty'')), st)
         \<and> requests (snd (sendMessage_begin prompt st)) = requests st
         \<and> loading (snd (sendMessage_begin prompt st)) = loading st
         \<and> requestIdRef (snd (sendMessage_begin prompt st)) = requestIdRef st"
  using assms by (simp add: sendMessage_begin_def trim_eq_Nil_iff)

theorem sendMessage_blank_prompt_witness:
  "list_all is_js_space [32, 9, 10]
   \<and> sendMessage_begin [32, 9, 10] api_init
       = (Inl (ErrorInstance (str ''Prompt cannot be empty'')), api_init)
   \<and> list_all is_js_space []
   \<and> sendMessage_begin [] api_init
       = (Inl (ErrorInstance (str ''Prompt cannot be empty'')), api_init)
   \<and> fst (sendMessage_begin (str ''hi'') api_init) = Inr 1
   \<and> requests (snd (sendMessage_begin (str ''hi'') api_init)) = [PostPrompt (str ''hi'')]"
proof -
  have b: "list_all is_js_space [32, 9, 10]" and e: "list_all is_js_space []"
    by (simp_all add: is_js_space_def)
  show ?thesis
    using sendMessage_blank_prompt [OF b, of api_init] sendMessage_blank_prompt [OF e, of api_init] b e
    by (simp add: sendMessage_begin_def trim_def is_js_space_def str_def api_init_def)
qed

end
